theory Spec2Isabelle
  imports Complex_Main "HOL-Library.Word"
begin

unbundle bit_operations_syntax

section \<open>Run controller: best-so-far tracking (BaseGPUACS::run)\<close>

text \<open>
  Device floats are idealised as real numbers throughout this development; node
  indices, counters and array positions are natural numbers (none of the claims
  depends on 32-bit wrap-around).

  The host-side part of \<open>RunContext\<close> that the iteration loop of
  \<open>BaseGPUACS::run\<close> mutates: \<open>best_value_[0]\<close>, \<open>best_route_\<close> and the local
  \<open>best_found_iteration\<close>.
\<close>

record run_ctx =
  ctx_best_value :: real
  ctx_best_route :: "nat list"
  ctx_best_found_iteration :: nat

text \<open>\<open>std::numeric_limits<float>::max()\<close>, the initial \<open>best_value_[0]\<close>.\<close>

definition FLT_MAX :: real where
  "FLT_MAX = 340282346638528859811704183484516925440"

definition init_run_context :: "nat \<Rightarrow> run_ctx" where
  "init_run_context dimension =
     \<lparr>ctx_best_value = FLT_MAX, ctx_best_route = replicate dimension 0, ctx_best_found_iteration = 0\<rparr>"

text \<open>
  The scan \<open>best_index = 0; for (i = 0; i < ants_count; ++i) if (ant_values_[i] <
  ant_values_[best_index]) best_index = i;\<close>.  \<open>find_best_index ant_values n\<close> is the value of
  \<open>best_index\<close> after the loop body has run for \<open>i = 0, \<dots>, n - 1\<close>.
\<close>

fun find_best_index :: "real list \<Rightarrow> nat \<Rightarrow> nat" where
  "find_best_index ant_values 0 = 0"
| "find_best_index ant_values (Suc i) =
     (let best_index = find_best_index ant_values i
      in if ant_values ! i < ant_values ! best_index then i else best_index)"

text \<open>
  \<open>copy(ant_routes_.begin() + best_index * dimension, ant_routes_.begin() + (best_index+1) *
  dimension, best_route_.begin())\<close> on the flat array of all ants' routes.
\<close>

definition copy_route :: "nat list \<Rightarrow> nat \<Rightarrow> nat \<Rightarrow> nat list" where
  "copy_route ant_routes best_index dimension =
     take dimension (drop (best_index * dimension) ant_routes)"

text \<open>
  One pass through the part of the loop body between the copy-back of the ant lengths
  and the global pheromone update.  \<open>iteration\<close> is what \<open>stop_cond->get_iteration()\<close>
  returns.
\<close>

definition update_best ::
  "nat \<Rightarrow> nat \<Rightarrow> nat \<Rightarrow> real list \<Rightarrow> nat list \<Rightarrow> run_ctx \<Rightarrow> run_ctx" where
  "update_best dimension ants_count iteration ant_values ant_routes ctx =
     (let best_index = find_best_index ant_values ants_count
      in if ant_values ! best_index < ctx_best_value ctx
         then \<lparr>ctx_best_value = ant_values ! best_index,
               ctx_best_route = copy_route ant_routes best_index dimension,
               ctx_best_found_iteration = iteration\<rparr>
         else ctx)"

text \<open>
  The iteration loop, for as long as the external stop condition lets it run: one
  element of \<open>results\<close> (the copied-back ant lengths and routes) per iteration.
  \<open>best_history\<close> lists \<open>best_value_[0]\<close> before the first iteration and after each one.
\<close>

fun run_iterations ::
  "nat \<Rightarrow> nat \<Rightarrow> nat \<Rightarrow> (real list \<times> nat list) list \<Rightarrow> run_ctx \<Rightarrow> run_ctx" where
  "run_iterations dimension ants_count iteration [] ctx = ctx"
| "run_iterations dimension ants_count iteration ((ant_values, ant_routes) # results) ctx =
     run_iterations dimension ants_count (Suc iteration) results
       (update_best dimension ants_count iteration ant_values ant_routes ctx)"

fun best_history ::
  "nat \<Rightarrow> nat \<Rightarrow> nat \<Rightarrow> (real list \<times> nat list) list \<Rightarrow> run_ctx \<Rightarrow> real list" where
  "best_history dimension ants_count iteration [] ctx = [ctx_best_value ctx]"
| "best_history dimension ants_count iteration ((ant_values, ant_routes) # results) ctx =
     ctx_best_value ctx #
     best_history dimension ants_count (Suc iteration) results
       (update_best dimension ants_count iteration ant_values ant_routes ctx)"

section \<open>Lane-group primitives\<close>

text \<open>
  A kernel is run by \<open>blockDim\<close> threads, grouped into warps of \<open>WARP_SIZE\<close> lanes that
  execute in lockstep.  A per-lane value of a warp is a list with lane \<open>i\<close> at position
  \<open>i\<close>.  The model runs the lanes of a warp one statement at a time, as lockstep
  execution does, and the warps of a block in the order of their index between two
  \<open>__syncthreads()\<close>.
\<close>

definition WARP_SIZE :: nat where
  "WARP_SIZE = 32"

definition MAX_VISITED_SIZE :: nat where
  "MAX_VISITED_SIZE = 473"

text \<open>
  The loop \<open>for (i = start; i < n; i += stride) acc = body i acc\<close>, the shape of every
  thread-strided loop of the kernels.  A launched block has at least one thread, so
  the stride is positive; the guard makes the function total for stride 0 too.
\<close>

function strided_loop :: "(nat \<Rightarrow> 'a \<Rightarrow> 'a) \<Rightarrow> nat \<Rightarrow> nat \<Rightarrow> nat \<Rightarrow> 'a \<Rightarrow> 'a" where
  "strided_loop body stride n i acc =
     (if 0 < stride \<and> i < n then strided_loop body stride n (i + stride) (body i acc)
      else acc)"
  by pat_completeness auto
termination
  by (relation "measure (\<lambda>(body, stride, n, i, acc). n - i)") auto

text \<open>The number of warps a block of \<open>blockDim\<close> threads occupies, and the threads of warp \<open>w\<close>.\<close>

definition block_warps :: "nat \<Rightarrow> nat" where
  "block_warps blockDim = (blockDim + (WARP_SIZE - 1)) div WARP_SIZE"

definition warp_lanes :: "nat \<Rightarrow> nat \<Rightarrow> nat list" where
  "warp_lanes blockDim w = [w * WARP_SIZE ..< min (w * WARP_SIZE + WARP_SIZE) blockDim]"

text \<open>
  Modelled from the spec: the group primitives \<open>warp_reduce\<close>, \<open>warp_reduce_arg_max\<close>,
  \<open>warp_reduce_arg_max_ext\<close>, \<open>warp_scan\<close> and \<open>warp_bcast\<close> are declared in a header that
  is not part of the sources.  Section 4.1 of the specification: \<open>reduce\<close> returns the
  sum over all lanes; \<open>reduce_arg_max\<close> returns the (id, value) pair of the lane with the
  maximum value, ties broken by the lowest lane index (first writer wins under strict
  \<open><\<close>); \<open>scan\<close> is the inclusive prefix sum (lane \<open>i\<close> holds the sum of lanes \<open>0..i\<close>);
  \<open>broadcast\<close> hands every lane the value of the source lane.
\<close>

definition warp_reduce :: "real list \<Rightarrow> real" where
  "warp_reduce vals = sum_list vals"

definition warp_reduce_arg_max_ext :: "(nat \<times> real) list \<Rightarrow> nat \<times> real" where
  "warp_reduce_arg_max_ext lanes =
     (case lanes of
        [] \<Rightarrow> (0, 0)
      | first # rest \<Rightarrow>
          foldl (\<lambda>(best_id, best) (lane_id, val). if best < val then (lane_id, val) else (best_id, best))
            first rest)"

definition warp_reduce_arg_max :: "(nat \<times> real) list \<Rightarrow> nat" where
  "warp_reduce_arg_max lanes = fst (warp_reduce_arg_max_ext lanes)"

definition warp_scan :: "real list \<Rightarrow> real list" where
  "warp_scan vals = map (\<lambda>i. sum_list (take (Suc i) vals)) [0..<length vals]"

definition warp_bcast :: "'a list \<Rightarrow> nat \<Rightarrow> 'a" where
  "warp_bcast vals src_lane = vals ! src_lane"

text \<open>
  The CUDA warp vote and bit intrinsics: \<open>__any\<close>, \<open>__ballot\<close> (bit \<open>i\<close> of the mask is
  the predicate of lane \<open>i\<close>), \<open>__popc\<close> (number of set bits) and \<open>__ffs\<close> (position of
  the lowest set bit counted from 1, 0 for an empty mask).
\<close>

definition any_lane :: "bool list \<Rightarrow> bool" where
  "any_lane preds = list_ex (\<lambda>p. p) preds"

definition ballot :: "bool list \<Rightarrow> 32 word" where
  "ballot preds = horner_sum of_bool 2 preds"

definition popc :: "32 word \<Rightarrow> nat" where
  "popc bits = length (filter (bit bits) [0..<32])"

definition ffs :: "32 word \<Rightarrow> nat" where
  "ffs bits = (case find (bit bits) [0..<32] of None \<Rightarrow> 0 | Some i \<Rightarrow> Suc i)"

section \<open>Roulette-wheel selection\<close>

text \<open>
  The exploration branch, common to \<open>acs_calc_solution\<close>, \<open>acs_spm_calc_solution\<close> and
  \<open>acs_select_next_node\<close>:
  \<^verbatim>\<open>my_sum = warp_scan(nn_know); total_sum = warp_bcast(my_sum, WARP_SIZE-1);
  t = rng.rand_uniform() * total_sum;
  best_idx = min(WARP_SIZE-1, __popc(__ballot(my_sum <= t)));\<close>
  \<open>r\<close> is the value \<open>rng.rand_uniform()\<close> returns.
\<close>

definition roulette_threshold :: "real list \<Rightarrow> real \<Rightarrow> real" where
  "roulette_threshold nn_know r =
     r * warp_bcast (warp_scan nn_know) (WARP_SIZE - 1)"

definition roulette_best_idx :: "real list \<Rightarrow> real \<Rightarrow> nat" where
  "roulette_best_idx nn_know r =
     (let my_sum = warp_scan nn_know;
          total_sum = warp_bcast my_sum (WARP_SIZE - 1);
          t = r * total_sum
      in min (WARP_SIZE - 1) (popc (ballot (map (\<lambda>s. s \<le> t) my_sum))))"

section \<open>Tour length\<close>

text \<open>
  The tail of \<open>acs_calc_solution\<close> and of \<open>acs_spm_calc_solution\<close>: every thread sums the
  edges \<open>i = tid, tid + blockDim, \<dots>\<close>, each warp reduces its lanes' sums, the first lane
  of warp \<open>w\<close> stores the warp's sum in the shared array \<open>know[w]\<close> (four cells), and
  thread 0 adds \<open>know[0..num_warps)\<close> with \<open>num_warps = blockDim / WARP_SIZE\<close>.  \<open>know0\<close>
  is what the shared array holds before.

  Every thread reads the finished route here.  In a block of one warp that is what the
  kernels do: thread 0 stores \<open>route[dimension - 1]\<close> in the last pass of the loop before
  its warp goes on to the sums.  \<open>acs_calc_solution\<close> has no barrier between that store and
  the sums, so in a block of several warps the threads of the other warps may still read the
  old content of \<open>route[dimension - 1]\<close>; the properties of the length are stated for a
  block of one warp (the default \<open>threads_per_block_\<close>, and the only size
  \<open>acs_spm_calc_solution\<close> is launched with).
\<close>

definition edge_dist :: "nat \<Rightarrow> (nat \<Rightarrow> real) \<Rightarrow> nat list \<Rightarrow> nat \<Rightarrow> real" where
  "edge_dist dimension dist_matrix route i =
     dist_matrix (route ! i * dimension + route ! ((i + 1) mod dimension))"

definition thread_route_sum :: "nat \<Rightarrow> nat \<Rightarrow> (nat \<Rightarrow> real) \<Rightarrow> nat list \<Rightarrow> nat \<Rightarrow> real" where
  "thread_route_sum blockDim dimension dist_matrix route tid =
     strided_loop (\<lambda>i my_sum. my_sum + edge_dist dimension dist_matrix route i)
       blockDim dimension tid 0"

definition calc_route_length ::
  "nat \<Rightarrow> nat \<Rightarrow> (nat \<Rightarrow> real) \<Rightarrow> nat list \<Rightarrow> real list \<Rightarrow> real" where
  "calc_route_length blockDim dimension dist_matrix route know0 =
     (let my_sum = thread_route_sum blockDim dimension dist_matrix route;
          know = foldl (\<lambda>know w. know[w := warp_reduce (map my_sum (warp_lanes blockDim w))])
                   know0 [0..<block_warps blockDim];
          num_warps = blockDim div WARP_SIZE
      in foldl (\<lambda>total i. total + know ! i) 0 [0..<num_warps])"

text \<open>
  \<open>eval_ants_solutions\<close>, the evaluation pass of the per-step strategy.  Its assertions
  (\<open>blockDim.x == WARP_SIZE\<close>, \<open>route_len == dimension\<close>) abort the kernel: \<open>None\<close>.
\<close>

definition eval_ants_solutions ::
  "nat \<Rightarrow> nat \<Rightarrow> (nat \<Rightarrow> real) \<Rightarrow> nat \<Rightarrow> nat list \<Rightarrow> real option" where
  "eval_ants_solutions blockDim dimension dist_matrix route_len route =
     (if blockDim = WARP_SIZE \<and> route_len = dimension
      then Some (warp_reduce
             (map (\<lambda>tid. strided_loop (\<lambda>i my_sum. my_sum + edge_dist dimension dist_matrix route i)
                           blockDim route_len tid 0)
                (warp_lanes blockDim 0)))
      else None)"

section \<open>Global pheromone update on the dense matrix\<close>

text \<open>
  \<open>acs_global_pheromone_update\<close> on a raw \<open>float *pheromone_matrix\<close>, a flat array
  indexed \<open>u * dimension + v\<close>.  The body of its loop for one \<open>i\<close>:
\<close>

definition global_update_edge ::
  "nat \<Rightarrow> real \<Rightarrow> real \<Rightarrow> nat list \<Rightarrow> nat \<Rightarrow> (nat \<Rightarrow> real) \<Rightarrow> (nat \<Rightarrow> real)" where
  "global_update_edge dimension rho delta best_route i pheromone_matrix =
     (let u = best_route ! i;
          v = best_route ! ((i + 1) mod dimension);
          val = (1 - rho) * pheromone_matrix (u * dimension + v) + rho * delta
      in (pheromone_matrix (u * dimension + v := val)) (v * dimension + u := val))"

text \<open>
  The kernel: thread \<open>threadIdx.x\<close> of every block handles \<open>i = threadIdx.x, threadIdx.x +
  num_threads, \<dots>\<close> with \<open>num_threads = blockDim.x * gridDim.x\<close>.  The threads are run one
  after the other.  (The controller launches one block of 128 threads.)
\<close>

definition acs_global_pheromone_update ::
  "nat \<Rightarrow> nat \<Rightarrow> nat \<Rightarrow> real \<Rightarrow> (nat \<Rightarrow> real) \<Rightarrow> real \<Rightarrow> nat list \<Rightarrow> (nat \<Rightarrow> real)" where
  "acs_global_pheromone_update gridDim blockDim dimension rho pheromone_matrix best_value
      best_route =
     (let delta = 1 / best_value;
          num_threads = blockDim * gridDim
      in foldl (\<lambda>matrix threadIdx.
                  strided_loop (global_update_edge dimension rho delta best_route)
                    num_threads dimension threadIdx matrix)
           pheromone_matrix
           (concat (replicate gridDim [0..<blockDim])))"

section \<open>Kernel arguments, pheromone memories and the visited bitmask\<close>

text \<open>
  The read-only arguments of the construction kernels and their launch configuration:
  \<open>dimension\<close>, \<open>blockDim.x\<close>, the fields \<open>q0_\<close>, \<open>phi_\<close> and \<open>initial_pheromone_\<close> of
  \<open>GPU_ACSParams\<close>, the flat arrays \<open>heuristic_matrix\<close>, \<open>dist_matrix\<close> and \<open>nn_lists\<close>, the
  constant \<open>NN_SIZE\<close> (a macro of a header that is not part of the sources) and
  \<open>pher_mem_update_freq\<close> (an \<open>int\<close> that the kernels use as the unsigned right operand
  of \<open>%\<close>).  The arrays are functions of the flat index.

  The random stream of the ant (\<open>PRNG rng(&rnd_states[ant_id])\<close>, a class that is not part
  of the sources) is the sequence of values its calls return: \<open>arg_rand_uint k\<close> and
  \<open>arg_rand_uniform k\<close> are what \<open>rand_uint()\<close> and \<open>rand_uniform()\<close> return when \<open>k\<close> draws
  were made before.  \<open>arg_uninit tid\<close> is whatever an uninitialised local of thread \<open>tid\<close>
  holds, and \<open>arg_shared\<close> what the shared arrays \<open>cand_set[4]\<close> and \<open>know[4]\<close> hold
  when a kernel starts.
\<close>

record kernel_args =
  arg_dimension :: nat
  arg_blockDim :: nat
  arg_q0 :: real
  arg_phi :: real
  arg_initial_pheromone :: real
  arg_heuristic_matrix :: "nat \<Rightarrow> real"
  arg_dist_matrix :: "nat \<Rightarrow> real"
  arg_nn_lists :: "nat \<Rightarrow> nat"
  arg_NN_SIZE :: nat
  arg_update_freq :: nat
  arg_rand_uint :: "nat \<Rightarrow> nat"
  arg_rand_uniform :: "nat \<Rightarrow> real"
  arg_uninit :: "nat \<Rightarrow> nat"
  arg_shared :: "nat list \<times> real list"

text \<open>
  The template parameter \<open>PhmemT\<close> of \<open>acs_calc_solution\<close> and \<open>acs_select_next_node\<close>: the
  kernels use \<open>phmem.get(k)\<close> on a flat index and \<open>phmem.update(u, v, decay, deposit)\<close>.
  The classes that instantiate it (\<open>MatrixPhmemDevice\<close>, \<open>MatrixPhmemAtomic\<close>) are not part
  of the sources, so the memory is a parameter: a state type with these two operations.
\<close>

record 'm phmem_ops =
  phmem_get :: "'m \<Rightarrow> nat \<Rightarrow> real"
  phmem_update :: "'m \<Rightarrow> nat \<Rightarrow> nat \<Rightarrow> real \<Rightarrow> real \<Rightarrow> 'm"

text \<open>
  The operations of \<open>SelectivePhmem\<close> (not part of the sources) that
  \<open>acs_spm_calc_solution\<close> calls: \<open>capacity()\<close>, \<open>get_indices(node)[slot]\<close>,
  \<open>get_pheromone(node)[slot]\<close>, \<open>default_pheromone()\<close>, \<open>get(u, v)\<close> and
  \<open>unsafe_warp_update(u, v, decay, deposit)\<close>.
\<close>

record 'm spm_ops =
  spm_capacity :: nat
  spm_get_indices :: "'m \<Rightarrow> nat \<Rightarrow> nat \<Rightarrow> nat"
  spm_get_pheromone :: "'m \<Rightarrow> nat \<Rightarrow> nat \<Rightarrow> real"
  spm_default_pheromone :: "'m \<Rightarrow> real"
  spm_get :: "'m \<Rightarrow> nat \<Rightarrow> nat \<Rightarrow> real"
  spm_unsafe_warp_update :: "'m \<Rightarrow> nat \<Rightarrow> nat \<Rightarrow> real \<Rightarrow> real \<Rightarrow> 'm"


text \<open>
  A memory that only records the calls of \<open>update\<close>, in order, and reads 1 everywhere:
  it makes the deposits of a run visible.
\<close>

type_synonym update_log = "(nat \<times> nat \<times> real \<times> real) list"

definition log_ops :: "update_log phmem_ops" where
  "log_ops =
     \<lparr>phmem_get = (\<lambda>lg k. 1),
      phmem_update = (\<lambda>lg u v decay deposit. lg @ [(u, v, decay, deposit)])\<rparr>"

text \<open>
  The same for the selective memory, with capacity 8 (the value the controller
  constructs it with) and empty short lists: every slot holds \<open>empty_id\<close>, an id that is
  no node of the instance.
\<close>

definition log_spm_ops :: "nat \<Rightarrow> update_log spm_ops" where
  "log_spm_ops empty_id =
     \<lparr>spm_capacity = 8,
      spm_get_indices = (\<lambda>lg node slot. empty_id),
      spm_get_pheromone = (\<lambda>lg node slot. 0),
      spm_default_pheromone = (\<lambda>lg. 1),
      spm_get = (\<lambda>lg u v. 1),
      spm_unsafe_warp_update = (\<lambda>lg u v decay deposit. lg @ [(u, v, decay, deposit)])\<rparr>"

text \<open>
  \<open>is_node_visited\<close> and \<open>set_node_visited\<close> on the shared bitmask
  \<open>was_visited[MAX_VISITED_SIZE]\<close>: \<open>visited[node >> 5] & (1 << (node & 31))\<close> and
  \<open>visited[node >> 5] |= 1 << (node & 31)\<close>.  The macro \<open>WAS_VISITED\<close> of
  \<open>acs_spm_calc_solution\<close> is the same test.  A node beyond \<open>32 * MAX_VISITED_SIZE\<close> is
  outside the array (undefined in the source; \<open>!\<close> is unspecified and \<open>[:=]\<close> does
  nothing there).
\<close>

definition is_node_visited :: "32 word list \<Rightarrow> nat \<Rightarrow> bool" where
  "is_node_visited visited node \<longleftrightarrow>
     visited ! (drop_bit 5 node) AND push_bit (take_bit 5 node) 1 \<noteq> 0"

definition set_node_visited :: "32 word list \<Rightarrow> nat \<Rightarrow> 32 word list" where
  "set_node_visited visited node =
     visited [drop_bit 5 node := visited ! (drop_bit 5 node) OR push_bit (take_bit 5 node) 1]"


section \<open>Node selection shared by the kernels\<close>

text \<open>
  The first warp's choice among the nearest neighbours of the current node \<open>cur\<close> (\<open>curr\<close> in the source), as written in
  \<open>acs_calc_solution\<close> and again in \<open>acs_select_next_node\<close>; the two differ only in how a
  node is tested for being visited (\<open>visited\<close>).  The result is the new \<open>next_pos[0]\<close>
  (\<open>dimension\<close> for no selection) and the number of draws made so far.
\<close>

definition select_from_nn ::
  "kernel_args \<Rightarrow> 'm phmem_ops \<Rightarrow> (nat \<Rightarrow> bool) \<Rightarrow> 'm \<Rightarrow> nat \<Rightarrow> nat \<Rightarrow> nat \<times> nat" where
  "select_from_nn args ops visited phmem cur rng =
     (let dimension = arg_dimension args;
          nn_id = map (\<lambda>tid. arg_nn_lists args (cur * arg_NN_SIZE args + tid)) [0..<WARP_SIZE];
          nn_unvisited = map (\<lambda>n. \<not> visited n) nn_id
      in if any_lane nn_unvisited
         then
           let nn_know = map (\<lambda>n. if \<not> visited n
                                    then arg_heuristic_matrix args (dimension * cur + n)
                                         * phmem_get ops phmem (dimension * cur + n)
                                    else 0) nn_id;
               q = arg_rand_uniform args rng
           in if q < arg_q0 args
              then (warp_reduce_arg_max (zip nn_id nn_know), rng + 1)
              else
                let best_idx = roulette_best_idx nn_know (arg_rand_uniform args (rng + 1));
                    best_nn = warp_bcast nn_id best_idx
                in (if visited best_nn then dimension else best_nn, rng + 2)
         else (dimension, rng))"

text \<open>
  The two-level arg-max reduction that ends every fallback scan.  \<open>thread_best tid\<close> is
  the pair \<open>(my_best_id, my_max)\<close> of thread \<open>tid\<close> after its scan.  Every warp reduces
  its lanes with \<open>warp_reduce_arg_max_ext\<close>, its first lane stores the result in
  \<open>cand_set[w]\<close> and \<open>know[w]\<close>, and after the barrier the threads \<open>tid < num_warps\<close> reduce
  these entries with the four-lane \<open>warp_reduce_arg_max\<close>; thread 0 has the result.  With
  \<open>num_warps = 0\<close> no thread takes part and there is no result.
\<close>

definition warp_partials ::
  "nat \<Rightarrow> (nat \<Rightarrow> nat \<times> real) \<Rightarrow> nat list \<times> real list \<Rightarrow> nat list \<times> real list" where
  "warp_partials blockDim thread_best shared =
     foldl (\<lambda>(cand_set, know) w.
              let (my_best_id, my_max) =
                    warp_reduce_arg_max_ext (map thread_best (warp_lanes blockDim w))
              in (cand_set [w := my_best_id], know [w := my_max]))
        shared [0..<block_warps blockDim]"

definition block_arg_max ::
  "nat \<Rightarrow> nat list \<times> real list \<Rightarrow> nat option" where
  "block_arg_max blockDim shared =
     (let num_warps = blockDim div WARP_SIZE
      in if 0 < num_warps
         then Some (warp_reduce_arg_max
                      (map (\<lambda>tid. (fst shared ! tid, snd shared ! tid)) [0..<num_warps]))
         else None)"

section \<open>Monolithic construction: acs_calc_solution\<close>

text \<open>
  The state of the block that builds the tour of one ant: the ant's slice of the route
  buffer, the shared bitmask \<open>was_visited\<close>, \<open>curr_pos[0]\<close>, the shared arrays
  \<open>(cand_set, know)\<close>, the pheromone memory and the number of random draws made.
\<close>

record 'm ant_state =
  ant_route :: "nat list"
  ant_was_visited :: "32 word list"
  ant_curr_pos :: nat
  ant_shared :: "nat list \<times> real list"
  ant_phmem :: 'm
  ant_rng :: nat

text \<open>
  The body of the fallback scan of \<open>acs_calc_solution\<close> for node \<open>i\<close>, on the pair
  \<open>(my_best_id, my_max)\<close> of a thread.
\<close>

definition scan_node ::
  "kernel_args \<Rightarrow> 'm phmem_ops \<Rightarrow> 32 word list \<Rightarrow> 'm \<Rightarrow> nat \<Rightarrow> nat \<Rightarrow> nat \<times> real
     \<Rightarrow> nat \<times> real" where
  "scan_node args ops was_visited phmem offset i best =
     (let (my_best_id, my_max) = best
      in if \<not> is_node_visited was_visited i
         then
           let product = arg_heuristic_matrix args (offset + i) * phmem_get ops phmem (i + offset)
           in (if my_max < product then i else my_best_id, max my_max product)
         else (my_best_id, my_max))"

definition fallback_scan ::
  "kernel_args \<Rightarrow> 'm phmem_ops \<Rightarrow> 32 word list \<Rightarrow> 'm \<Rightarrow> nat \<Rightarrow> nat list \<times> real list
     \<Rightarrow> nat option \<times> (nat list \<times> real list)" where
  "fallback_scan args ops was_visited phmem cur shared =
     (let dimension = arg_dimension args;
          offset = dimension * cur;
          thread_best = (\<lambda>tid. strided_loop (scan_node args ops was_visited phmem offset)
                                  (arg_blockDim args) dimension tid (dimension, 0));
          shared' = warp_partials (arg_blockDim args) thread_best shared
      in (block_arg_max (arg_blockDim args) shared', shared'))"

text \<open>
  One pass through the loop body of \<open>acs_calc_solution\<close>, for the loop counter \<open>iter\<close>:
  selection among the nearest neighbours, the fallback scan when \<open>next_pos[0]\<close> is still
  \<open>dimension\<close>, and the commit by thread 0.
\<close>

definition acs_calc_solution_step ::
  "kernel_args \<Rightarrow> 'm phmem_ops \<Rightarrow> nat \<Rightarrow> 'm ant_state \<Rightarrow> 'm ant_state" where
  "acs_calc_solution_step args ops iter s =
     (let dimension = arg_dimension args;
          cur = ant_curr_pos s;
          (selected, rng) = select_from_nn args ops (is_node_visited (ant_was_visited s))
                              (ant_phmem s) cur (ant_rng s);
          (next_pos, shared) =
            (if selected = dimension
             then (case fallback_scan args ops (ant_was_visited s) (ant_phmem s) cur (ant_shared s)
                   of (Some my_best_id, shared') \<Rightarrow> (my_best_id, shared')
                    | (None, shared') \<Rightarrow> (selected, shared'))
             else (selected, ant_shared s));
          next_node = next_pos;
          was_visited = set_node_visited (ant_was_visited s) next_node;
          route = (ant_route s) [iter := next_node];
          v = route ! (iter - 1);
          u = next_node;
          phmem = (if iter mod arg_update_freq args = 0
                   then phmem_update ops (ant_phmem s) u v (arg_phi args) (arg_initial_pheromone args)
                   else ant_phmem s)
      in \<lparr>ant_route = route, ant_was_visited = was_visited, ant_curr_pos = next_node,
          ant_shared = shared, ant_phmem = phmem, ant_rng = rng\<rparr>)"

text \<open>
  The state before the loop: the bitmask is cleared, \<open>curr_pos[0] = route[0]\<close> and the
  start node is marked.
\<close>

definition acs_calc_solution_init ::
  "kernel_args \<Rightarrow> nat list \<Rightarrow> 'm \<Rightarrow> nat \<Rightarrow> 'm ant_state" where
  "acs_calc_solution_init args route phmem rng =
     (let first_node = route ! 0
      in \<lparr>ant_route = route,
          ant_was_visited = set_node_visited (replicate MAX_VISITED_SIZE 0) first_node,
          ant_curr_pos = first_node, ant_shared = arg_shared args,
          ant_phmem = phmem, ant_rng = rng\<rparr>)"

text \<open>The loop \<open>for (iter = 1; iter < dimension; ++iter)\<close>, up to the bound \<open>n\<close>.\<close>

definition acs_calc_solution_loop ::
  "kernel_args \<Rightarrow> 'm phmem_ops \<Rightarrow> nat \<Rightarrow> 'm ant_state \<Rightarrow> 'm ant_state" where
  "acs_calc_solution_loop args ops n s =
     foldl (\<lambda>s iter. acs_calc_solution_step args ops iter s) s [1..<n]"

text \<open>
  The local update on the closing edge follows the loop and is not guarded by
  \<open>tid == 0\<close>: each of the \<open>blockDim\<close> threads of the block makes the call.  The model
  makes the calls one after the other.
\<close>

definition closing_edge_update :: "kernel_args \<Rightarrow> 'm phmem_ops \<Rightarrow> nat list \<Rightarrow> 'm \<Rightarrow> 'm" where
  "closing_edge_update args ops route phmem =
     (let dimension = arg_dimension args
      in if dimension mod arg_update_freq args = 0
         then ((\<lambda>m. phmem_update ops m (route ! (dimension - 1)) (route ! 0)
                       (arg_phi args) (arg_initial_pheromone args)) ^^ arg_blockDim args) phmem
         else phmem)"

text \<open>
  The kernel for one ant: the final state of the block, and the tour length written to
  the ant's slot of \<open>ant_values\<close>.

  The warps of the block are run in the order of their index.  Inside the loop the barriers
  of the source give that order.  After the last pass there is none before the barrier that
  precedes the final sum: a warp other than the first leaves the loop after the barrier
  before the four-lane arg-max, and may run the closing update, its sums and its store to
  \<open>know\<close> while the first warp still reads \<open>know\<close> and has not yet stored
  \<open>route[dimension - 1]\<close>.  With one warp there is no such warp, and the properties of the
  kernel are stated for a block of one warp.
\<close>

definition acs_calc_solution ::
  "kernel_args \<Rightarrow> 'm phmem_ops \<Rightarrow> nat list \<Rightarrow> 'm \<Rightarrow> nat \<Rightarrow> 'm ant_state \<times> real" where
  "acs_calc_solution args ops route phmem rng =
     (let dimension = arg_dimension args;
          s = acs_calc_solution_loop args ops dimension
                (acs_calc_solution_init args route phmem rng);
          phmem' = closing_edge_update args ops (ant_route s) (ant_phmem s)
      in (s \<lparr>ant_phmem := phmem'\<rparr>,
          calc_route_length (arg_blockDim args) dimension (arg_dist_matrix args) (ant_route s)
            (snd (ant_shared s))))"

section \<open>Per-step construction: acs_select_next_node\<close>

text \<open>
  What persists between the launches of \<open>acs_select_next_node\<close> for one ant: the route,
  the visited count, the ant's slice of \<open>ants_marked_nodes\<close> (an \<open>int8_t\<close> per node), the
  pheromone memory and the random stream.
\<close>

record 'm step_state =
  st_route :: "nat list"
  st_visited_count :: nat
  st_was_visited :: "8 word list"
  st_phmem :: 'm
  st_rng :: nat

text \<open>The body of the fallback scan of \<open>acs_select_next_node\<close> for node \<open>i\<close>.\<close>

definition scan_node_step ::
  "kernel_args \<Rightarrow> 'm phmem_ops \<Rightarrow> 8 word list \<Rightarrow> 'm \<Rightarrow> nat \<Rightarrow> nat \<Rightarrow> nat \<times> real
     \<Rightarrow> nat \<times> real" where
  "scan_node_step args ops was_visited phmem offset i best =
     (let (my_best_id, my_max) = best;
          product = (if was_visited ! i \<noteq> 0 then 0
                     else arg_heuristic_matrix args (offset + i) * phmem_get ops phmem (i + offset))
      in (if my_max < product then i else my_best_id, max my_max product))"

text \<open>
  The commit by thread 0: the local update is made on every step, and on the closing
  edge when the route is complete; \<open>pher_mem_update_freq\<close> is not consulted.
\<close>

definition step_commit ::
  "kernel_args \<Rightarrow> 'm phmem_ops \<Rightarrow> 'm step_state \<Rightarrow> 8 word list \<Rightarrow> nat \<Rightarrow> nat \<Rightarrow> nat
     \<Rightarrow> 'm step_state" where
  "step_commit args ops s was_visited rng pos next_node =
     (let route_len = st_visited_count s;
          route = (st_route s) [route_len := next_node];
          phmem = phmem_update ops (st_phmem s) pos next_node
                    (arg_phi args) (arg_initial_pheromone args);
          phmem' = (if Suc route_len = arg_dimension args
                    then phmem_update ops phmem next_node (route ! 0)
                           (arg_phi args) (arg_initial_pheromone args)
                    else phmem)
      in \<lparr>st_route = route, st_visited_count = Suc route_len,
          st_was_visited = was_visited [next_node := 1],
          st_phmem = phmem', st_rng = rng\<rparr>)"

text \<open>
  One launch for one ant.  A failed \<open>assert\<close> aborts the kernel: \<open>None\<close>.
\<close>

definition acs_select_next_node ::
  "kernel_args \<Rightarrow> 'm phmem_ops \<Rightarrow> 'm step_state \<Rightarrow> 'm step_state option" where
  "acs_select_next_node args ops s =
     (let dimension = arg_dimension args;
          route_len = st_visited_count s
      in if \<not> (0 < route_len \<and> route_len < dimension) then None
         else
           let pos = st_route s ! (route_len - 1)
           in if \<not> pos < dimension then None
              else
                let was_visited = (st_was_visited s) [pos := 1];
                    cur = pos;
                    (selected, rng) = select_from_nn args ops (\<lambda>n. was_visited ! n \<noteq> 0)
                                        (st_phmem s) cur (st_rng s)
                in if selected = dimension
                   then
                     let offset = dimension * cur;
                         thread_best =
                           (\<lambda>tid. strided_loop
                                    (scan_node_step args ops was_visited (st_phmem s) offset)
                                    (arg_blockDim args) dimension tid (dimension, 0));
                         shared = warp_partials (arg_blockDim args) thread_best (arg_shared args)
                     in (case block_arg_max (arg_blockDim args) shared of
                           None \<Rightarrow> Some (step_commit args ops s was_visited rng pos selected)
                         | Some my_best_id \<Rightarrow>
                             if my_best_id = dimension then None
                             else Some (step_commit args ops s was_visited rng pos my_best_id))
                   else Some (step_commit args ops s was_visited rng pos selected))"

text \<open>
  \<open>GPUACSSeparate::build_ant_solutions\<close> for one ant: the marked nodes are cleared, the
  kernel is launched \<open>dimension - 1\<close> times, and \<open>eval_ants_solutions\<close> computes the
  length.  \<open>acs_ant_init\<close> has set the visited count to 1.
\<close>

definition separate_launches ::
  "kernel_args \<Rightarrow> 'm phmem_ops \<Rightarrow> nat \<Rightarrow> 'm step_state \<Rightarrow> 'm step_state option" where
  "separate_launches args ops n s =
     foldl (\<lambda>state i. case state of None \<Rightarrow> None
                       | Some s' \<Rightarrow> acs_select_next_node args ops s')
       (Some s) [1..<n]"

definition separate_build_ant_solutions ::
  "kernel_args \<Rightarrow> 'm phmem_ops \<Rightarrow> nat list \<Rightarrow> 'm \<Rightarrow> nat \<Rightarrow> ('m step_state \<times> real) option" where
  "separate_build_ant_solutions args ops route phmem rng =
     (let dimension = arg_dimension args;
          s0 = \<lparr>st_route = route, st_visited_count = 1,
                st_was_visited = replicate dimension 0, st_phmem = phmem, st_rng = rng\<rparr>
      in case separate_launches args ops dimension s0 of
           None \<Rightarrow> None
         | Some s \<Rightarrow>
             (case eval_ants_solutions WARP_SIZE dimension (arg_dist_matrix args)
                     (st_visited_count s) (st_route s) of
                None \<Rightarrow> None
              | Some len \<Rightarrow> Some (s, len)))"

section \<open>Selective-memory construction: acs_spm_calc_solution\<close>

text \<open>
  The exploitation branch.  Lane \<open>tid < capacity\<close> scores entry \<open>tid\<close> of the short list
  of \<open>cur\<close>; the other lanes keep product 0 and an uninitialised \<open>my_node\<close>.  The result is
  \<open>(nn_product, max_product, t)\<close>: the two values the first \<open>assert\<close> tests and the node
  stored in \<open>next_pos[0]\<close>.
\<close>

definition spm_exploit ::
  "kernel_args \<Rightarrow> 'm spm_ops \<Rightarrow> 32 word list \<Rightarrow> 'm \<Rightarrow> nat \<Rightarrow> real \<Rightarrow> nat list \<Rightarrow> bool list
     \<Rightarrow> real \<times> real \<times> nat" where
  "spm_exploit args sops was_visited memory cur initial_pheromone nn_id is_nn_unvisited =
     (let dimension = arg_dimension args;
          heuristic_ptr = (\<lambda>i. arg_heuristic_matrix args (dimension * cur + i));
          lane = (\<lambda>tid.
                    if tid < spm_capacity sops
                    then
                      let my_node = spm_get_indices sops memory cur tid
                      in (my_node,
                          if my_node < dimension \<and> \<not> is_node_visited was_visited my_node
                          then spm_get_pheromone sops memory cur tid * heuristic_ptr my_node
                          else 0)
                    else (arg_uninit args tid, 0));
          (best_node, max_product) = warp_reduce_arg_max_ext (map lane [0..<WARP_SIZE]);
          first_unvisited_idx = ffs (ballot is_nn_unvisited) - 1;
          closest_unvisited_nn = warp_bcast nn_id first_unvisited_idx;
          nn_product = initial_pheromone * heuristic_ptr closest_unvisited_nn
      in (nn_product, max_product,
          if nn_product > max_product then closest_unvisited_nn else best_node))"

text \<open>
  The first warp's choice among the nearest neighbours.  \<open>None\<close>: one of the two
  assertions of the exploitation branch failed.
\<close>

definition spm_select_from_nn ::
  "kernel_args \<Rightarrow> 'm spm_ops \<Rightarrow> 32 word list \<Rightarrow> 'm \<Rightarrow> nat \<Rightarrow> real \<Rightarrow> nat
     \<Rightarrow> (nat \<times> nat) option" where
  "spm_select_from_nn args sops was_visited memory cur initial_pheromone rng =
     (let dimension = arg_dimension args;
          nn_id = map (\<lambda>tid. arg_nn_lists args (cur * arg_NN_SIZE args + tid)) [0..<WARP_SIZE];
          is_nn_unvisited = map (\<lambda>n. \<not> is_node_visited was_visited n) nn_id
      in if any_lane is_nn_unvisited
         then
           let q = arg_rand_uniform args rng
           in if q < arg_q0 args
              then
                let (nn_product, max_product, t) =
                      spm_exploit args sops was_visited memory cur initial_pheromone nn_id
                        is_nn_unvisited
                in if \<not> (nn_product > 0 \<or> max_product > 0) then None
                   else if is_node_visited was_visited t then None
                   else Some (t, rng + 1)
              else
                let nn_know = map (\<lambda>n. if is_node_visited was_visited n then 0
                                         else arg_heuristic_matrix args (dimension * cur + n)
                                              * spm_get sops memory cur n) nn_id;
                    best_idx = roulette_best_idx nn_know (arg_rand_uniform args (rng + 1));
                    best_nn = warp_bcast nn_id best_idx
                in Some (if \<not> is_node_visited was_visited best_nn then best_nn else dimension,
                         rng + 2)
         else Some (dimension, rng))"

text \<open>
  The fallback scan of a thread: the maximum of the heuristic over its unvisited nodes,
  scaled by the default pheromone, then compared with entry \<open>tid\<close> of the short list.
\<close>

definition spm_scan_node ::
  "kernel_args \<Rightarrow> 32 word list \<Rightarrow> nat \<Rightarrow> nat \<Rightarrow> nat \<times> real \<Rightarrow> nat \<times> real" where
  "spm_scan_node args was_visited cur i best =
     (let (my_node, my_product) = best;
          node_total = (if \<not> is_node_visited was_visited i then 1 else 0)
                       * arg_heuristic_matrix args (arg_dimension args * cur + i)
      in (if my_product < node_total then i else my_node, max my_product node_total))"

definition spm_thread_best ::
  "kernel_args \<Rightarrow> 'm spm_ops \<Rightarrow> 32 word list \<Rightarrow> 'm \<Rightarrow> nat \<Rightarrow> real \<Rightarrow> nat \<Rightarrow> nat \<times> real" where
  "spm_thread_best args sops was_visited memory cur initial_pheromone tid =
     (let dimension = arg_dimension args;
          (my_node, scanned) = strided_loop (spm_scan_node args was_visited cur)
                                 (arg_blockDim args) dimension tid (arg_uninit args tid, 0);
          my_product = scanned * initial_pheromone
      in if tid < spm_capacity sops
         then
           let node = spm_get_indices sops memory cur tid
           in if node < dimension \<and> \<not> is_node_visited was_visited node
              then
                let product = spm_get_pheromone sops memory cur tid
                              * arg_heuristic_matrix args (dimension * cur + node)
                in (if my_product < product then node else my_node, max my_product product)
              else (my_node, my_product)
         else (my_node, my_product))"

text \<open>
  One pass through the loop body, and the kernel.  After the loop the kernel goes
  straight to the tour length: it makes no update on the closing edge.
\<close>

definition acs_spm_calc_solution_step ::
  "kernel_args \<Rightarrow> 'm spm_ops \<Rightarrow> real \<Rightarrow> nat \<Rightarrow> 'm ant_state \<Rightarrow> 'm ant_state option" where
  "acs_spm_calc_solution_step args sops initial_pheromone iter s =
     (let dimension = arg_dimension args;
          cur = ant_curr_pos s
      in case spm_select_from_nn args sops (ant_was_visited s) (ant_phmem s) cur
                initial_pheromone (ant_rng s) of
           None \<Rightarrow> None
         | Some (selected, rng) \<Rightarrow>
             let (next_pos, shared) =
                   (if selected = dimension
                    then
                      let shared' = warp_partials (arg_blockDim args)
                                      (spm_thread_best args sops (ant_was_visited s) (ant_phmem s)
                                         cur initial_pheromone)
                                      (ant_shared s)
                      in (case block_arg_max (arg_blockDim args) shared' of
                            Some my_node \<Rightarrow> (my_node, shared')
                          | None \<Rightarrow> (selected, shared'))
                    else (selected, ant_shared s));
                 next_node = next_pos;
                 route = (ant_route s) [iter := next_node];
                 was_visited = set_node_visited (ant_was_visited s) next_node;
                 v = route ! (iter - 1);
                 u = next_node;
                 memory = (if iter mod arg_update_freq args = 0
                           then spm_unsafe_warp_update sops (ant_phmem s) u v (arg_phi args)
                                  initial_pheromone
                           else ant_phmem s)
             in Some \<lparr>ant_route = route, ant_was_visited = was_visited,
                      ant_curr_pos = next_node, ant_shared = shared, ant_phmem = memory,
                      ant_rng = rng\<rparr>)"

definition acs_spm_calc_solution_loop ::
  "kernel_args \<Rightarrow> 'm spm_ops \<Rightarrow> real \<Rightarrow> nat \<Rightarrow> 'm ant_state \<Rightarrow> 'm ant_state option" where
  "acs_spm_calc_solution_loop args sops initial_pheromone n s =
     foldl (\<lambda>state iter. case state of None \<Rightarrow> None
                          | Some s' \<Rightarrow> acs_spm_calc_solution_step args sops initial_pheromone iter s')
       (Some s) [1..<n]"

definition acs_spm_calc_solution ::
  "kernel_args \<Rightarrow> 'm spm_ops \<Rightarrow> nat list \<Rightarrow> 'm \<Rightarrow> nat \<Rightarrow> ('m ant_state \<times> real) option" where
  "acs_spm_calc_solution args sops route memory rng =
     (let dimension = arg_dimension args;
          initial_pheromone = spm_default_pheromone sops memory
      in case acs_spm_calc_solution_loop args sops initial_pheromone dimension
                (acs_calc_solution_init args route memory rng) of
           None \<Rightarrow> None
         | Some s \<Rightarrow>
             Some (s, calc_route_length (arg_blockDim args) dimension (arg_dist_matrix args)
                        (ant_route s) (snd (ant_shared s))))"

section \<open>Assumptions on the instance and on the pheromone memory\<close>




section \<open>Auxiliary notions for the proofs\<close>

text \<open>
  The indices a thread-strided loop visits, in order: the same recursion as
  \<open>strided_loop\<close>, collecting \<open>i\<close> instead of running the body.
\<close>

function strided_indices :: "nat \<Rightarrow> nat \<Rightarrow> nat \<Rightarrow> nat list" where
  "strided_indices stride n i =
     (if 0 < stride \<and> i < n then i # strided_indices stride n (i + stride) else [])"
  by pat_completeness auto
termination
  by (relation "measure (\<lambda>(stride, n, i). n - i)") auto


text \<open>
  The two cells of the dense matrix that belong to edge \<open>i\<close> of a tour, and the state of
  the matrix once the edges in \<open>D\<close> have been reinforced and no other cell was touched.
\<close>

definition tour_cell :: "nat \<Rightarrow> nat list \<Rightarrow> nat \<Rightarrow> nat" where
  "tour_cell dimension best_route i =
     best_route ! i * dimension + best_route ! ((i + 1) mod dimension)"

definition tour_cell_rev :: "nat \<Rightarrow> nat list \<Rightarrow> nat \<Rightarrow> nat" where
  "tour_cell_rev dimension best_route i =
     best_route ! ((i + 1) mod dimension) * dimension + best_route ! i"

definition edges_updated ::
  "nat \<Rightarrow> real \<Rightarrow> real \<Rightarrow> nat list \<Rightarrow> (nat \<Rightarrow> real) \<Rightarrow> nat set \<Rightarrow> (nat \<Rightarrow> real) \<Rightarrow> bool" where
  "edges_updated dimension rho delta best_route matrix0 D matrix \<longleftrightarrow>
     (\<forall>i \<in> D. matrix (tour_cell dimension best_route i) =
                (1 - rho) * matrix0 (tour_cell dimension best_route i) + rho * delta
            \<and> matrix (tour_cell_rev dimension best_route i) =
                (1 - rho) * matrix0 (tour_cell dimension best_route i) + rho * delta)
   \<and> (\<forall>c. (\<forall>i \<in> D. c \<noteq> tour_cell dimension best_route i
                    \<and> c \<noteq> tour_cell_rev dimension best_route i) \<longrightarrow> matrix c = matrix0 c)"





text \<open>
  The local deposits due after the construction steps \<open>1 .. n - 1\<close>: the update of the
  memory applied to the edge \<open>(route[t], route[t - 1])\<close> for every step \<open>t\<close> with
  \<open>t mod freq = 0\<close>, in the order of the steps.
\<close>

definition local_deposits ::
  "('m \<Rightarrow> nat \<Rightarrow> nat \<Rightarrow> real \<Rightarrow> real \<Rightarrow> 'm) \<Rightarrow> nat \<Rightarrow> real \<Rightarrow> real \<Rightarrow> nat list \<Rightarrow> nat \<Rightarrow> 'm \<Rightarrow> 'm" where
  "local_deposits update freq decay deposit route n phmem =
     foldl (\<lambda>m t. if t mod freq = 0 then update m (route ! t) (route ! (t - 1)) decay deposit else m)
       phmem [1..<n]"

text \<open>Concrete inputs on which the theorems are exercised.\<close>

definition demo_results :: "(real list \<times> nat list) list" where
  "demo_results = [([5, 3], [0,1,2, 2,0,1]), ([4, 6], [1,0,2, 0,2,1]), ([9, 2], [2,1,0, 1,2,0])]"


definition hit_scores :: "real list" where
  "hit_scores = 1 # 1 # replicate 30 0"

definition demo_route :: "nat list" where
  "demo_route = [2, 0, 1]"

text \<open>
  A three-node instance: every neighbour list cycles through the three nodes, all
  heuristic values are 1, every uniform draw is \<open>1/2\<close> (below \<open>q0 = 1\<close>, so every step
  exploits), and the start node is \<open>7 mod 3 = 1\<close>.
\<close>

definition demo_args :: "nat \<Rightarrow> kernel_args" where
  "demo_args freq =
     \<lparr>arg_dimension = 3, arg_blockDim = 32, arg_q0 = 1, arg_phi = 1 / 10,
      arg_initial_pheromone = 1 / 100,
      arg_heuristic_matrix = (\<lambda>k. 1), arg_dist_matrix = (\<lambda>k. real k),
      arg_nn_lists = (\<lambda>k. (k mod 32) mod 3), arg_NN_SIZE = 32, arg_update_freq = freq,
      arg_rand_uint = (\<lambda>k. 7), arg_rand_uniform = (\<lambda>k. 1 / 2), arg_uninit = (\<lambda>tid. 0),
      arg_shared = ([0, 0, 0, 0], [0, 0, 0, 0])\<rparr>"

text \<open>The visited bitmask of an ant standing on its start node \<open>1\<close>.\<close>

definition demo_visited :: "32 word list" where
  "demo_visited = set_node_visited (replicate MAX_VISITED_SIZE 0) 1"

section \<open>Properties of the controller\<close>

lemma find_best_index_less:
  "0 < n \<Longrightarrow> find_best_index vs n < n"
proof (induction n)
  case 0
  then show ?case by simp
next
  case (Suc n)
  show ?case
  proof (cases n)
    case 0
    then show ?thesis by simp
  next
    case (Suc m)
    with Suc.IH have "find_best_index vs n < n" by simp
    then show ?thesis by (simp add: Let_def)
  qed
qed

lemma find_best_index_le:
  "j < n \<Longrightarrow> vs ! find_best_index vs n \<le> vs ! j"
proof (induction n)
  case 0
  then show ?case by simp
next
  case (Suc n)
  show ?case
  proof (cases "j = n")
    case True
    then show ?thesis by (simp add: Let_def)
  next
    case False
    with Suc.prems have "j < n" by simp
    with Suc.IH have "vs ! find_best_index vs n \<le> vs ! j" .
    then show ?thesis by (simp add: Let_def)
  qed
qed

lemma find_best_index_first:
  "j < find_best_index vs n \<Longrightarrow> vs ! find_best_index vs n < vs ! j"
proof (induction n)
  case 0
  then show ?case by simp
next
  case (Suc n)
  let ?b = "find_best_index vs n"
  show ?case
  proof (cases "vs ! n < vs ! ?b")
    case True
    then have eq: "find_best_index vs (Suc n) = n" by (simp add: Let_def)
    with Suc.prems have "j < n" by simp
    then have "vs ! ?b \<le> vs ! j" by (rule find_best_index_le)
    with True eq show ?thesis by simp
  next
    case False
    then have eq: "find_best_index vs (Suc n) = ?b" by (simp add: Let_def)
    with Suc.prems Suc.IH show ?thesis by simp
  qed
qed

text \<open>
  C10.  For a colony of at least one ant, the scan of the copied-back ant lengths
  returns an index in range that attains the minimum, and every earlier index holds a
  strictly larger value: the lowest index attaining the minimum.  The scan is a function
  of the ant-values array alone.
\<close>

theorem find_best_index_lowest_minimum:
  assumes "0 < ants_count"
  shows "find_best_index ant_values ants_count < ants_count
       \<and> (\<forall>j < ants_count.
            ant_values ! find_best_index ant_values ants_count \<le> ant_values ! j)
       \<and> (\<forall>j < find_best_index ant_values ants_count.
            ant_values ! j > ant_values ! find_best_index ant_values ants_count)"
  using assms
  by (simp add: find_best_index_less find_best_index_le find_best_index_first)

theorem find_best_index_lowest_minimum_witness:
  "(0::nat) < 4 \<and> find_best_index [5, 3, 7, 3] 4 = 1
   \<and> [5, 3, 7, 3::real] ! find_best_index [5, 3, 7, 3] 4 \<le> [5, 3, 7, 3] ! 3
   \<and> [5, 3, 7, 3::real] ! 0 > [5, 3, 7, 3] ! find_best_index [5, 3, 7, 3] 4"
proof -
  have h: "(0::nat) < 4" by simp
  have e: "find_best_index [5, 3, 7, 3] 4 = 1" by code_simp
  from find_best_index_lowest_minimum [OF h, of "[5, 3, 7, 3]"]
  have "(\<forall>j < 4. [5, 3, 7, 3::real] ! find_best_index [5, 3, 7, 3] 4 \<le> [5, 3, 7, 3] ! j)"
    and "(\<forall>j < find_best_index [5, 3, 7, 3] 4.
        [5, 3, 7, 3::real] ! j > [5, 3, 7, 3] ! find_best_index [5, 3, 7, 3] 4)"
    by blast+
  then have "[5, 3, 7, 3::real] ! find_best_index [5, 3, 7, 3] 4 \<le> [5, 3, 7, 3] ! 3"
    and "[5, 3, 7, 3::real] ! 0 > [5, 3, 7, 3] ! find_best_index [5, 3, 7, 3] 4"
    using e by simp_all
  with h e show ?thesis by blast
qed

lemma update_best_le:
  "ctx_best_value (update_best d n it vs rs ctx) \<le> ctx_best_value ctx"
  by (simp add: update_best_def Let_def)

lemma best_history_length:
  "length (best_history d n it results ctx) = Suc (length results)"
  by (induction results arbitrary: it ctx) auto

lemma best_history_hd:
  "best_history d n it results ctx ! 0 = ctx_best_value ctx"
  by (cases results) auto

lemma best_history_step:
  "Suc i < length (best_history d n it results ctx) \<Longrightarrow>
   best_history d n it results ctx ! Suc i \<le> best_history d n it results ctx ! i"
proof (induction results arbitrary: it ctx i)
  case Nil
  then show ?case by simp
next
  case (Cons r results)
  obtain vs rs where r: "r = (vs, rs)" by (cases r)
  show ?case
  proof (cases i)
    case 0
    then show ?thesis
      using r by (simp add: best_history_hd update_best_le)
  next
    case (Suc k)
    with Cons.prems r have "Suc k < length (best_history d n (Suc it) results (update_best d n it vs rs ctx))"
      by simp
    from Cons.IH [OF this] Suc r show ?thesis by simp
  qed
qed

text \<open>
  C5.  With at least one ant, one pass of the controller never raises the recorded best
  length; it replaces the record only by the iteration's minimum ant length, and only
  when that minimum is strictly below the recorded length; when no ant is below the
  recorded length the record is left as it is.  Each iteration contributes exactly one
  entry to the history of recorded best lengths, and the history is non-increasing.
\<close>

theorem best_value_non_increasing:
  assumes "0 < ants_count"
  shows "ctx_best_value (update_best dimension ants_count iteration ant_values ant_routes ctx)
           \<le> ctx_best_value ctx
       \<and> (update_best dimension ants_count iteration ant_values ant_routes ctx \<noteq> ctx \<longrightarrow>
            (\<exists>b < ants_count.
               (\<forall>j < ants_count. ant_values ! b \<le> ant_values ! j)
             \<and> ant_values ! b < ctx_best_value ctx
             \<and> update_best dimension ants_count iteration ant_values ant_routes ctx =
                 \<lparr>ctx_best_value = ant_values ! b,
                  ctx_best_route = copy_route ant_routes b dimension,
                  ctx_best_found_iteration = iteration\<rparr>))
       \<and> ((\<forall>j < ants_count. ctx_best_value ctx \<le> ant_values ! j) \<longrightarrow>
            update_best dimension ants_count iteration ant_values ant_routes ctx = ctx)
       \<and> length (best_history dimension ants_count iteration results ctx) = Suc (length results)
       \<and> (\<forall>i. Suc i < length (best_history dimension ants_count iteration results ctx) \<longrightarrow>
            best_history dimension ants_count iteration results ctx ! i
              \<ge> best_history dimension ants_count iteration results ctx ! Suc i)"
proof -
  let ?b = "find_best_index ant_values ants_count"
  let ?u = "update_best dimension ants_count iteration ant_values ant_routes ctx"
  have b: "?b < ants_count" using assms by (rule find_best_index_less)
  have m: "\<forall>j < ants_count. ant_values ! ?b \<le> ant_values ! j"
    by (simp add: find_best_index_le)
  have 1: "ctx_best_value ?u \<le> ctx_best_value ctx" by (rule update_best_le)
  have 2: "?u \<noteq> ctx \<longrightarrow>
            (\<exists>b < ants_count.
               (\<forall>j < ants_count. ant_values ! b \<le> ant_values ! j)
             \<and> ant_values ! b < ctx_best_value ctx
             \<and> ?u = \<lparr>ctx_best_value = ant_values ! b,
                  ctx_best_route = copy_route ant_routes b dimension,
                  ctx_best_found_iteration = iteration\<rparr>)"
  proof
    assume "?u \<noteq> ctx"
    then have lt: "ant_values ! ?b < ctx_best_value ctx"
      by (auto simp: update_best_def Let_def split: if_splits)
    then have "?u = \<lparr>ctx_best_value = ant_values ! ?b,
                  ctx_best_route = copy_route ant_routes ?b dimension,
                  ctx_best_found_iteration = iteration\<rparr>"
      by (simp add: update_best_def Let_def)
    with b m lt show "\<exists>b < ants_count.
               (\<forall>j < ants_count. ant_values ! b \<le> ant_values ! j)
             \<and> ant_values ! b < ctx_best_value ctx
             \<and> ?u = \<lparr>ctx_best_value = ant_values ! b,
                  ctx_best_route = copy_route ant_routes b dimension,
                  ctx_best_found_iteration = iteration\<rparr>"
      by blast
  qed
  have 3: "(\<forall>j < ants_count. ctx_best_value ctx \<le> ant_values ! j) \<longrightarrow> ?u = ctx"
  proof
    assume "\<forall>j < ants_count. ctx_best_value ctx \<le> ant_values ! j"
    with b have "ctx_best_value ctx \<le> ant_values ! ?b" by blast
    then show "?u = ctx" by (simp add: update_best_def Let_def)
  qed
  have 4: "\<forall>i. Suc i < length (best_history dimension ants_count iteration results ctx) \<longrightarrow>
            best_history dimension ants_count iteration results ctx ! i
              \<ge> best_history dimension ants_count iteration results ctx ! Suc i"
    by (simp add: best_history_step)
  from 1 2 3 4 best_history_length show ?thesis by blast
qed

theorem best_value_non_increasing_witness:
  "(0::nat) < 2
   \<and> best_history 3 2 0 demo_results (init_run_context 3) = [FLT_MAX, 3, 3, 2]
   \<and> best_history 3 2 0 demo_results (init_run_context 3) ! 0
       \<ge> best_history 3 2 0 demo_results (init_run_context 3) ! Suc 0
   \<and> length (best_history 3 2 0 demo_results (init_run_context 3)) = Suc (length demo_results)"
proof -
  have h: "(0::nat) < 2" by simp
  have e: "best_history 3 2 0 demo_results (init_run_context 3) = [FLT_MAX, 3, 3, 2]"
    by (simp add: demo_results_def init_run_context_def update_best_def Let_def FLT_MAX_def
        numeral_2_eq_2 copy_route_def)
  from best_value_non_increasing [OF h, of 3 0 "[]" "[]" "init_run_context 3" demo_results]
  have len: "length (best_history 3 2 0 demo_results (init_run_context 3)) = Suc (length demo_results)"
    and mono: "\<forall>i. Suc i < length (best_history 3 2 0 demo_results (init_run_context 3)) \<longrightarrow>
            best_history 3 2 0 demo_results (init_run_context 3) ! i
              \<ge> best_history 3 2 0 demo_results (init_run_context 3) ! Suc i"
    by blast+
  have "Suc 0 < length (best_history 3 2 0 demo_results (init_run_context 3))"
    by (simp add: len demo_results_def)
  with mono have "best_history 3 2 0 demo_results (init_run_context 3) ! 0
       \<ge> best_history 3 2 0 demo_results (init_run_context 3) ! Suc 0" by blast
  with h e len show ?thesis by blast
qed

section \<open>Thread-strided loops\<close>

declare strided_loop.simps [simp del] strided_indices.simps [simp del]

lemma strided_loop_foldl:
  "strided_loop body stride n i acc = foldl (\<lambda>a j. body j a) acc (strided_indices stride n i)"
proof (induction body stride n i acc rule: strided_loop.induct)
  case (1 body stride n i acc)
  show ?case
  proof (cases "0 < stride \<and> i < n")
    case True
    then show ?thesis
      using 1 by (subst strided_loop.simps, subst strided_indices.simps) simp
  next
    case False
    then show ?thesis
      by (subst strided_loop.simps, subst strided_indices.simps) auto
  qed
qed

lemma set_strided_indices:
  "0 < stride \<Longrightarrow>
   set (strided_indices stride n i) = {j. i \<le> j \<and> j < n \<and> stride dvd (j - i)}"
proof (induction stride n i rule: strided_indices.induct)
  case (1 stride n i)
  show ?case
  proof (cases "i < n")
    case True
    have ih: "set (strided_indices stride n (i + stride)) =
        {j. i + stride \<le> j \<and> j < n \<and> stride dvd (j - (i + stride))}"
      using 1 True by simp
    have "{j. i \<le> j \<and> j < n \<and> stride dvd (j - i)} =
        insert i {j. i + stride \<le> j \<and> j < n \<and> stride dvd (j - (i + stride))}"
      (is "?L = insert i ?R")
    proof (rule set_eqI)
      fix j
      show "j \<in> ?L \<longleftrightarrow> j \<in> insert i ?R"
      proof
        assume "j \<in> ?L"
        then have a: "i \<le> j" "j < n" "stride dvd (j - i)" by auto
        show "j \<in> insert i ?R"
        proof (cases "j = i")
          case True
          then show ?thesis by simp
        next
          case False
          with a have "0 < j - i" by simp
          with a(3) have "stride \<le> j - i" by (rule dvd_imp_le)
          moreover have "stride dvd (j - i - stride)" using a(3) dvd_refl by (rule dvd_diff_nat)
          moreover have "j - i - stride = j - (i + stride)" by simp
          ultimately have "i + stride \<le> j" "stride dvd (j - (i + stride))" using a(1) by simp_all
          with a show ?thesis by simp
        qed
      next
        assume "j \<in> insert i ?R"
        then consider "j = i" | "j \<in> ?R" by auto
        then show "j \<in> ?L"
        proof cases
          case 1
          with True show ?thesis by simp
        next
          case 2
          then have a: "i + stride \<le> j" "j < n" "stride dvd (j - (i + stride))" by auto
          have "j - i = (j - (i + stride)) + stride" using a(1) by simp
          with a(3) have "stride dvd (j - i)" by simp
          with a show ?thesis by simp
        qed
      qed
    qed
    with ih True 1(2) show ?thesis
      by (subst strided_indices.simps) simp
  next
    case False
    then show ?thesis
      by (subst strided_indices.simps) auto
  qed
qed

lemma distinct_strided_indices:
  "distinct (strided_indices stride n i)"
proof (induction stride n i rule: strided_indices.induct)
  case (1 stride n i)
  show ?case
  proof (cases "0 < stride \<and> i < n")
    case True
    then have "i \<notin> set (strided_indices stride n (i + stride))"
      by (simp add: set_strided_indices)
    with 1 True show ?thesis by (subst strided_indices.simps) simp
  next
    case False
    then show ?thesis by (subst strided_indices.simps) auto
  qed
qed

lemma strided_thread_set:
  assumes "tid < T"
  shows "set (strided_indices T n tid) = {j. j < n \<and> j mod T = tid}"
proof -
  have T: "0 < T" using assms by simp
  have "\<And>j. (tid \<le> j \<and> T dvd (j - tid)) \<longleftrightarrow> j mod T = tid"
  proof
    fix j assume a: "tid \<le> j \<and> T dvd (j - tid)"
    then have "j mod T = tid mod T" by (simp add: mod_eq_dvd_iff_nat)
    then show "j mod T = tid" using assms by simp
  next
    fix j assume a: "j mod T = tid"
    then have "tid \<le> j" by (metis mod_less_eq_dividend)
    moreover have "T dvd (j - tid)" using a by (metis dvd_minus_mod)
    ultimately show "tid \<le> j \<and> T dvd (j - tid)" by simp
  qed
  then show ?thesis using T by (auto simp: set_strided_indices)
qed


section \<open>Properties of the tour length\<close>












lemma cell_decode:
  "b < (N::nat) \<Longrightarrow> d < N \<Longrightarrow> a * N + b = c * N + d \<Longrightarrow> a = c \<and> b = d"
proof -
  assume b: "b < N" and d: "d < N" and e: "a * N + b = c * N + d"
  from e have "(a * N + b) div N = (c * N + d) div N" by simp
  with b d have "a = c" by simp
  with e show ?thesis by simp
qed

lemma tour_cells_disjoint:
  assumes "distinct best_route" and "length best_route = N"
    and "\<forall>x \<in> set best_route. x < N" and "N \<noteq> 2"
    and "i < N" and "j < N" and "i \<noteq> j"
  shows "tour_cell N best_route i \<noteq> tour_cell N best_route j"
    and "tour_cell N best_route i \<noteq> tour_cell_rev N best_route j"
    and "tour_cell_rev N best_route i \<noteq> tour_cell_rev N best_route j"
proof -
  have N: "0 < N" using assms(5) by simp
  have si: "(i + 1) mod N < N" and sj: "(j + 1) mod N < N" using N by simp_all
  have r: "best_route ! k < N" if "k < N" for k
    using that assms(2,3) by simp
  have inj: "best_route ! a = best_route ! b \<Longrightarrow> a = b" if "a < N" "b < N" for a b
    using that assms(1,2) by (simp add: nth_eq_iff_index_eq)
  show "tour_cell N best_route i \<noteq> tour_cell N best_route j"
  proof
    assume "tour_cell N best_route i = tour_cell N best_route j"
    then have "best_route ! i = best_route ! j"
      unfolding tour_cell_def using cell_decode [OF r [OF si] r [OF sj]] by blast
    with inj assms(5,6,7) show False by blast
  qed
  show "tour_cell_rev N best_route i \<noteq> tour_cell_rev N best_route j"
  proof
    assume "tour_cell_rev N best_route i = tour_cell_rev N best_route j"
    then have "best_route ! i = best_route ! j"
      unfolding tour_cell_rev_def
      using cell_decode [OF r [OF assms(5)] r [OF assms(6)]] by blast
    with inj assms(5,6,7) show False by blast
  qed
  show "tour_cell N best_route i \<noteq> tour_cell_rev N best_route j"
  proof
    assume "tour_cell N best_route i = tour_cell_rev N best_route j"
    then have "best_route ! i = best_route ! ((j + 1) mod N)
             \<and> best_route ! ((i + 1) mod N) = best_route ! j"
      unfolding tour_cell_def tour_cell_rev_def
      using cell_decode [OF r [OF si] r [OF assms(6)]] by blast
    then have a: "i = (j + 1) mod N" and b: "(i + 1) mod N = j"
      using inj assms(5,6) si sj by blast+
    from a b have "((j + 1) mod N + 1) mod N = j" by simp
    then have "(j + 2) mod N = j mod N" using assms(6) by (simp add: mod_simps)
    then have "N dvd (j + 2) - j" by (simp add: mod_eq_dvd_iff_nat)
    then have "N dvd 2" by simp
    then have "N \<le> 2" by (simp add: dvd_imp_le)
    with N assms(4) have "N = 1" by simp
    with assms(5,6,7) show False by simp
  qed
qed

lemma edges_updated_step:
  assumes "distinct best_route" and "length best_route = N"
    and "\<forall>x \<in> set best_route. x < N" and "N \<noteq> 2"
    and "i < N" and "i \<notin> D" and "D \<subseteq> {..<N}"
    and "edges_updated N rho delta best_route matrix0 D matrix"
  shows "edges_updated N rho delta best_route matrix0 (insert i D)
           (global_update_edge N rho delta best_route i matrix)"
proof -
  let ?c = "tour_cell N best_route" and ?d = "tour_cell_rev N best_route"
  let ?M = "global_update_edge N rho delta best_route i matrix"
  have dis: "?c i \<noteq> ?c k \<and> ?c i \<noteq> ?d k \<and> ?d i \<noteq> ?c k \<and> ?d i \<noteq> ?d k" if "k \<in> D" for k
  proof -
    from that assms(6,7) have k: "k < N" "i \<noteq> k" "k \<noteq> i" by auto
    from tour_cells_disjoint [OF assms(1-5) k(1,2)]
         tour_cells_disjoint(2) [OF assms(1-4) k(1) assms(5) k(3)]
    show ?thesis by metis
  qed
  have old: "matrix (?c i) = matrix0 (?c i)"
    using assms(8) dis unfolding edges_updated_def by blast
  have M: "?M = (matrix (?c i := (1 - rho) * matrix0 (?c i) + rho * delta))
                  (?d i := (1 - rho) * matrix0 (?c i) + rho * delta)"
    using old by (simp add: global_update_edge_def Let_def tour_cell_def tour_cell_rev_def)
  show ?thesis
    unfolding edges_updated_def
  proof (intro conjI ballI allI impI)
    fix k assume "k \<in> insert i D"
    then consider "k = i" | "k \<in> D" by blast
    then show "?M (?c k) = (1 - rho) * matrix0 (?c k) + rho * delta"
    proof cases
      case 1
      then show ?thesis by (simp add: M)
    next
      case 2
      with dis have "?c k \<noteq> ?c i" "?c k \<noteq> ?d i" by metis+
      moreover from 2 assms(8) have "matrix (?c k) = (1 - rho) * matrix0 (?c k) + rho * delta"
        unfolding edges_updated_def by blast
      ultimately show ?thesis by (simp add: M)
    qed
  next
    fix k assume "k \<in> insert i D"
    then consider "k = i" | "k \<in> D" by blast
    then show "?M (?d k) = (1 - rho) * matrix0 (?c k) + rho * delta"
    proof cases
      case 1
      then show ?thesis by (simp add: M)
    next
      case 2
      with dis have "?d k \<noteq> ?c i" "?d k \<noteq> ?d i" by metis+
      moreover from 2 assms(8) have "matrix (?d k) = (1 - rho) * matrix0 (?c k) + rho * delta"
        unfolding edges_updated_def by blast
      ultimately show ?thesis by (simp add: M)
    qed
  next
    fix c assume a: "\<forall>k \<in> insert i D. c \<noteq> ?c k \<and> c \<noteq> ?d k"
    then have "matrix c = matrix0 c" using assms(8) unfolding edges_updated_def by blast
    with a show "?M c = matrix0 c" by (simp add: M)
  qed
qed

lemma edges_updated_foldl:
  assumes "distinct best_route" and "length best_route = N"
    and "\<forall>x \<in> set best_route. x < N" and "N \<noteq> 2"
  shows "distinct xs \<Longrightarrow> set xs \<subseteq> {..<N} \<Longrightarrow> set xs \<inter> D = {} \<Longrightarrow> D \<subseteq> {..<N} \<Longrightarrow>
         edges_updated N rho delta best_route matrix0 D matrix \<Longrightarrow>
         edges_updated N rho delta best_route matrix0 (D \<union> set xs)
           (foldl (\<lambda>a j. global_update_edge N rho delta best_route j a) matrix xs)"
proof (induction xs arbitrary: D matrix)
  case Nil
  then show ?case by simp
next
  case (Cons x xs)
  from Cons.prems have x: "x < N" "x \<notin> D" by auto
  have 1: "edges_updated N rho delta best_route matrix0 (insert x D)
             (global_update_edge N rho delta best_route x matrix)"
    using assms x Cons.prems(4,5) by (rule edges_updated_step)
  have "edges_updated N rho delta best_route matrix0 (insert x D \<union> set xs)
          (foldl (\<lambda>a j. global_update_edge N rho delta best_route j a)
             (global_update_edge N rho delta best_route x matrix) xs)"
    using Cons.prems x 1 by (intro Cons.IH) auto
  then show ?case by simp
qed

lemma edges_updated_threads:
  assumes "distinct best_route" and "length best_route = N"
    and "\<forall>x \<in> set best_route. x < N" and "N \<noteq> 2"
  shows "t \<le> T \<Longrightarrow>
    edges_updated N rho delta best_route matrix0 {j. j < N \<and> j mod T < t}
      (foldl (\<lambda>matrix threadIdx.
                strided_loop (global_update_edge N rho delta best_route) T N threadIdx matrix)
         matrix0 [0..<t])"
proof (induction t)
  case 0
  then show ?case by (simp add: edges_updated_def)
next
  case (Suc t)
  let ?D = "{j. j < N \<and> j mod T < t}"
  let ?xs = "strided_indices T N t"
  let ?M = "foldl (\<lambda>matrix threadIdx.
                strided_loop (global_update_edge N rho delta best_route) T N threadIdx matrix)
         matrix0 [0..<t]"
  from Suc.prems have t: "t < T" by simp
  then have xs: "set ?xs = {j. j < N \<and> j mod T = t}" by (rule strided_thread_set)
  have ih: "edges_updated N rho delta best_route matrix0 ?D ?M" using Suc by simp
  have "edges_updated N rho delta best_route matrix0 (?D \<union> set ?xs)
          (foldl (\<lambda>a j. global_update_edge N rho delta best_route j a) ?M ?xs)"
    using assms distinct_strided_indices _ _ _ ih
    by (rule edges_updated_foldl) (auto simp: xs)
  moreover have "?D \<union> set ?xs = {j. j < N \<and> j mod T < Suc t}"
    by (auto simp: xs less_Suc_eq)
  ultimately show ?case by (simp add: strided_loop_foldl)
qed

text \<open>
  C6.  Let the best route be a permutation of \<open>[0, dimension)\<close> with \<open>dimension \<noteq> 2\<close>, and
  the best length positive.  After the global update (one block), for every \<open>i\<close> in
  \<open>[0, dimension)\<close> the cell of the edge \<open>(best_route[i], best_route[(i+1) mod dimension])\<close>
  (the closing edge is \<open>i = dimension - 1\<close>) holds \<open>(1 - rho) * old + rho * delta\<close> with
  \<open>delta = 1 / best_value\<close> and \<open>old\<close> the previous value of that cell, the mirrored cell
  holds the same new value, and every cell that belongs to no edge of the route is
  unchanged.
\<close>

theorem global_update_reinforces_best_tour:
  assumes "distinct best_route" and "length best_route = dimension"
    and "\<forall>x \<in> set best_route. x < dimension" and "dimension \<noteq> 2"
    and "0 < blockDim" and "0 < best_value"
  shows "(\<forall>i < dimension.
           acs_global_pheromone_update 1 blockDim dimension rho pheromone_matrix best_value
               best_route (best_route ! i * dimension + best_route ! ((i + 1) mod dimension))
             = (1 - rho) * pheromone_matrix
                             (best_route ! i * dimension + best_route ! ((i + 1) mod dimension))
               + rho * (1 / best_value)
         \<and> acs_global_pheromone_update 1 blockDim dimension rho pheromone_matrix best_value
               best_route (best_route ! ((i + 1) mod dimension) * dimension + best_route ! i)
             = (1 - rho) * pheromone_matrix
                             (best_route ! i * dimension + best_route ! ((i + 1) mod dimension))
               + rho * (1 / best_value))
       \<and> (\<forall>c. (\<forall>i < dimension.
                   c \<noteq> best_route ! i * dimension + best_route ! ((i + 1) mod dimension)
                 \<and> c \<noteq> best_route ! ((i + 1) mod dimension) * dimension + best_route ! i) \<longrightarrow>
              acs_global_pheromone_update 1 blockDim dimension rho pheromone_matrix best_value
                best_route c = pheromone_matrix c)"
proof -
  let ?M = "acs_global_pheromone_update 1 blockDim dimension rho pheromone_matrix best_value
               best_route"
  have M: "?M = foldl (\<lambda>matrix threadIdx.
                strided_loop (global_update_edge dimension rho (1 / best_value) best_route)
                  blockDim dimension threadIdx matrix)
         pheromone_matrix [0..<blockDim]"
    by (simp add: acs_global_pheromone_update_def Let_def)
  have "edges_updated dimension rho (1 / best_value) best_route pheromone_matrix
          {j. j < dimension \<and> j mod blockDim < blockDim} ?M"
    unfolding M using assms(1-4) order_refl by (rule edges_updated_threads)
  moreover have "{j. j < dimension \<and> j mod blockDim < blockDim} = {..<dimension}"
    using assms(5) by auto
  ultimately have "edges_updated dimension rho (1 / best_value) best_route pheromone_matrix
          {..<dimension} ?M" by simp
  then show ?thesis
    unfolding edges_updated_def tour_cell_def tour_cell_rev_def by simp
qed

theorem global_update_reinforces_best_tour_witness:
  "acs_global_pheromone_update 1 128 3 (1 / 10) (\<lambda>c. 1) 4 demo_route 5 = 37 / 40
   \<and> acs_global_pheromone_update 1 128 3 (1 / 10) (\<lambda>c. 1) 4 demo_route 7 = 37 / 40
   \<and> acs_global_pheromone_update 1 128 3 (1 / 10) (\<lambda>c. 1) 4 demo_route 4 = 1"
proof -
  have h: "distinct demo_route" "length demo_route = 3" "\<forall>x \<in> set demo_route. x < 3"
    "(3::nat) \<noteq> 2" "(0::nat) < 128" "(0::real) < 4"
    by (simp_all add: demo_route_def)
  note inst = global_update_reinforces_best_tour [OF h, of "1 / 10" "\<lambda>c. 1"]
  have two: "(2::nat) < 3" by simp
  have c5: "demo_route ! 2 * 3 + demo_route ! ((2 + 1) mod 3) = 5"
    and c7: "demo_route ! ((2 + 1) mod 3) * 3 + demo_route ! 2 = 7"
    by (simp_all add: demo_route_def)
  have val: "(1 - 1 / 10) * 1 + 1 / 10 * (1 / 4) = (37 / 40 :: real)" by simp
  from inst [THEN conjunct1, rule_format, OF two]
  have a: "acs_global_pheromone_update 1 128 3 (1 / 10) (\<lambda>c. 1) 4 demo_route 5 = 37 / 40"
    and b: "acs_global_pheromone_update 1 128 3 (1 / 10) (\<lambda>c. 1) 4 demo_route 7 = 37 / 40"
    unfolding c5 c7 val by blast+
  have off: "\<forall>i < 3. (4::nat) \<noteq> demo_route ! i * 3 + demo_route ! ((i + 1) mod 3)
                 \<and> 4 \<noteq> demo_route ! ((i + 1) mod 3) * 3 + demo_route ! i"
  proof (intro allI impI)
    fix i :: nat assume "i < 3"
    then consider "i = 0" | "i = 1" | "i = 2" by linarith
    then show "(4::nat) \<noteq> demo_route ! i * 3 + demo_route ! ((i + 1) mod 3)
                 \<and> 4 \<noteq> demo_route ! ((i + 1) mod 3) * 3 + demo_route ! i"
      by cases (simp_all add: demo_route_def)
  qed
  from inst [THEN conjunct2, rule_format, of 4] off
  have c: "acs_global_pheromone_update 1 128 3 (1 / 10) (\<lambda>c. 1) 4 demo_route 4 = 1"
    by blast
  from a b c show ?thesis by blast
qed

lemma bit_ballot:
  "length preds \<le> 32 \<Longrightarrow> bit (ballot preds) i \<longleftrightarrow> i < length preds \<and> preds ! i"
  by (auto simp: ballot_def bit_horner_sum_bit_iff)

lemma popc_ballot:
  assumes "length preds = 32"
  shows "popc (ballot preds) = length (filter (\<lambda>i. preds ! i) [0..<32])"
proof -
  have "filter (bit (ballot preds)) [0..<32] = filter (\<lambda>i. preds ! i) [0..<32]"
    by (rule filter_cong) (use assms in \<open>auto simp: bit_ballot\<close>)
  then show ?thesis by (simp add: popc_def)
qed

lemma count_prefix_closed:
  assumes "\<forall>i j. j \<le> i \<longrightarrow> i < n \<longrightarrow> P i \<longrightarrow> P j"
  shows "length (filter P [0..<n]) \<le> n
       \<and> (\<forall>i < n. P i \<longleftrightarrow> i < length (filter P [0..<n]))"
  using assms
proof (induction n)
  case 0
  then show ?case by simp
next
  case (Suc n)
  define k where "k = length (filter P [0..<n])"
  have pre: "\<forall>i j. j \<le> i \<longrightarrow> i < n \<longrightarrow> P i \<longrightarrow> P j"
  proof (intro allI impI)
    fix i j assume "j \<le> i" "i < n" "P i"
    moreover from \<open>i < n\<close> have "i < Suc n" by simp
    ultimately show "P j" using Suc.prems by blast
  qed
  from Suc.IH [OF pre] have k: "k \<le> n" and ih: "\<forall>i < n. P i \<longleftrightarrow> i < k"
    unfolding k_def by blast+
  show ?case
  proof (cases "P n")
    case True
    have all: "P i" if "i < n" for i
    proof -
      from that have "i \<le> n" "n < Suc n" by simp_all
      with True Suc.prems show ?thesis by blast
    qed
    have "k = n"
    proof (cases n)
      case 0
      with k show ?thesis by simp
    next
      case (Suc m)
      then have "m < n" by simp
      with all ih have "m < k" by blast
      with Suc k show ?thesis by simp
    qed
    with True have len: "length (filter P [0..<Suc n]) = Suc n" by (simp add: k_def)
    have "\<forall>i < Suc n. P i \<longleftrightarrow> i < Suc n"
      using all True by (simp add: less_Suc_eq)
    with len show ?thesis by simp
  next
    case False
    then have len: "length (filter P [0..<Suc n]) = k" by (simp add: k_def)
    have "\<forall>i < Suc n. P i \<longleftrightarrow> i < k"
    proof (intro allI impI)
      fix i assume "i < Suc n"
      then consider "i < n" | "i = n" by linarith
      then show "P i \<longleftrightarrow> i < k"
      proof cases
        case 1
        with ih show ?thesis by blast
      next
        case 2
        with False k show ?thesis by simp
      qed
    qed
    with len k show ?thesis by simp
  qed
qed

lemma warp_scan_length: "length (warp_scan vals) = length vals"
  by (simp add: warp_scan_def)

lemma warp_scan_nth:
  "i < length vals \<Longrightarrow> warp_scan vals ! i = sum_list (take (Suc i) vals)"
  by (simp add: warp_scan_def)

lemma sum_list_take_mono:
  assumes "\<forall>x \<in> set vals. (0::real) \<le> x" and "j \<le> i"
  shows "sum_list (take j vals) \<le> sum_list (take i vals)"
proof -
  from assms(2) obtain d where i: "i = j + d" by (auto simp: le_iff_add)
  have "take (j + d) vals = take j vals @ take d (drop j vals)" by (simp add: take_add)
  moreover have "0 \<le> sum_list (take d (drop j vals))"
    by (rule sum_list_nonneg) (use assms(1) in \<open>auto dest: in_set_takeD in_set_dropD\<close>)
  ultimately show ?thesis using i by simp
qed

lemma warp_scan_mono:
  assumes "\<forall>x \<in> set vals. (0::real) \<le> x" and "j \<le> i" and "i < length vals"
  shows "warp_scan vals ! j \<le> warp_scan vals ! i"
  using assms by (simp add: warp_scan_nth sum_list_take_mono)

text \<open>
  C4 (as amended).  For a warp of non-negative candidate scores, with \<open>S\<close> the inclusive
  prefix sums and \<open>t\<close> the uniform draw scaled by the total: the lane the roulette wheel
  picks is the first index whose prefix sum is strictly greater than \<open>t\<close> (every earlier
  prefix sum is at most \<open>t\<close>), and it is the last lane, \<open>WARP_SIZE - 1\<close>, when no prefix sum
  exceeds \<open>t\<close>.
\<close>

theorem roulette_selects_first_exceeding:
  assumes "length nn_know = WARP_SIZE" and "\<forall>x \<in> set nn_know. 0 \<le> x"
  shows "(\<forall>j < roulette_best_idx nn_know r.
            warp_scan nn_know ! j \<le> roulette_threshold nn_know r)
       \<and> roulette_best_idx nn_know r < WARP_SIZE
       \<and> ((\<exists>i < WARP_SIZE. roulette_threshold nn_know r < warp_scan nn_know ! i) \<longrightarrow>
            roulette_threshold nn_know r < warp_scan nn_know ! roulette_best_idx nn_know r)
       \<and> ((\<forall>i < WARP_SIZE. warp_scan nn_know ! i \<le> roulette_threshold nn_know r) \<longrightarrow>
            roulette_best_idx nn_know r = WARP_SIZE - 1)"
proof -
  let ?S = "warp_scan nn_know"
  let ?t = "roulette_threshold nn_know r"
  let ?P = "\<lambda>i. ?S ! i \<le> ?t"
  define k where "k = length (filter ?P [0..<32])"
  have len: "length nn_know = 32" using assms(1) by (simp add: WARP_SIZE_def)
  have lenS: "length ?S = 32" using len by (simp add: warp_scan_length)
  have "popc (ballot (map (\<lambda>s. s \<le> ?t) ?S)) = length (filter (\<lambda>i. map (\<lambda>s. s \<le> ?t) ?S ! i) [0..<32])"
    by (rule popc_ballot) (simp add: lenS)
  also have "filter (\<lambda>i. map (\<lambda>s. s \<le> ?t) ?S ! i) [0..<32] = filter ?P [0..<32]"
    by (rule filter_cong) (simp_all add: lenS)
  finally have "popc (ballot (map (\<lambda>s. s \<le> ?t) ?S)) = k" by (simp only: k_def)
  then have idx: "roulette_best_idx nn_know r = min 31 k"
    by (simp add: roulette_best_idx_def roulette_threshold_def Let_def WARP_SIZE_def)
  have closed: "\<forall>i j. j \<le> i \<longrightarrow> i < 32 \<longrightarrow> ?P i \<longrightarrow> ?P j"
  proof (intro allI impI)
    fix i j :: nat assume "j \<le> i" "i < 32" "?P i"
    moreover have "?S ! j \<le> ?S ! i"
      using assms(2) \<open>j \<le> i\<close> by (rule warp_scan_mono) (simp add: len \<open>i < 32\<close>)
    ultimately show "?P j" by linarith
  qed
  from count_prefix_closed [of 32 ?P, OF closed]
  have k: "k \<le> 32" and P: "\<forall>i < 32. ?P i \<longleftrightarrow> i < k" unfolding k_def by blast+
  have 1: "\<forall>j < roulette_best_idx nn_know r. ?S ! j \<le> ?t"
  proof (intro allI impI)
    fix j assume "j < roulette_best_idx nn_know r"
    with idx have "j < 32" "j < k" by simp_all
    with P show "?S ! j \<le> ?t" by blast
  qed
  have 2: "roulette_best_idx nn_know r < WARP_SIZE" using idx by (simp add: WARP_SIZE_def)
  have 3: "(\<exists>i < WARP_SIZE. ?t < ?S ! i) \<longrightarrow> ?t < ?S ! roulette_best_idx nn_know r"
  proof
    assume "\<exists>i < WARP_SIZE. ?t < ?S ! i"
    then obtain i where i: "i < 32" "\<not> ?P i" by (auto simp: WARP_SIZE_def)
    with P have "\<not> i < k" by blast
    with i(1) have k32: "k < 32" by simp
    then have "min 31 k = k" by simp
    moreover from k32 P have "\<not> ?P k" by blast
    ultimately show "?t < ?S ! roulette_best_idx nn_know r" using idx by simp
  qed
  have 4: "(\<forall>i < WARP_SIZE. ?P i) \<longrightarrow> roulette_best_idx nn_know r = WARP_SIZE - 1"
  proof
    assume "\<forall>i < WARP_SIZE. ?P i"
    then have "?P 31" by (simp add: WARP_SIZE_def)
    with P have "31 < k" by simp
    then show "roulette_best_idx nn_know r = WARP_SIZE - 1" using idx by (simp add: WARP_SIZE_def)
  qed
  from 1 2 3 4 show ?thesis by blast
qed

lemma hit_scores_threshold: "roulette_threshold hit_scores (1 / 2) = 1"
  by code_simp

lemma hit_scores_scan: "warp_scan hit_scores ! 0 = 1"
  by code_simp

lemma hit_scores_scan_next: "warp_scan hit_scores ! Suc 0 = 2"
  by code_simp

lemma hit_scores_best_idx: "roulette_best_idx hit_scores (1 / 2) = 1"
  by code_simp

theorem roulette_selects_first_exceeding_witness:
  "roulette_best_idx hit_scores (1 / 2) = 1
   \<and> roulette_threshold hit_scores (1 / 2)
       < warp_scan hit_scores ! roulette_best_idx hit_scores (1 / 2)
   \<and> warp_scan hit_scores ! 0 \<le> roulette_threshold hit_scores (1 / 2)"
proof -
  have h: "length hit_scores = WARP_SIZE" "\<forall>x \<in> set hit_scores. 0 \<le> x"
    by (auto simp: hit_scores_def WARP_SIZE_def)
  have ex: "\<exists>i < WARP_SIZE. roulette_threshold hit_scores (1 / 2) < warp_scan hit_scores ! i"
  proof (intro exI conjI)
    show "Suc 0 < WARP_SIZE" by (simp add: WARP_SIZE_def)
    show "roulette_threshold hit_scores (1 / 2) < warp_scan hit_scores ! Suc 0"
      by (simp add: hit_scores_threshold hit_scores_scan_next)
  qed
  from roulette_selects_first_exceeding [OF h, of "1 / 2"] ex
  have "roulette_threshold hit_scores (1 / 2)
          < warp_scan hit_scores ! roulette_best_idx hit_scores (1 / 2)"
    and "\<forall>j < roulette_best_idx hit_scores (1 / 2).
          warp_scan hit_scores ! j \<le> roulette_threshold hit_scores (1 / 2)"
    by blast+
  then show ?thesis by (simp add: hit_scores_best_idx)
qed

text \<open>
  The claim as stated (the first index whose prefix sum is \<open>\<ge>\<close> the scaled draw) fails
  where a prefix sum equals the scaled draw: with scores \<open>1, 1, 0, \<dots>, 0\<close> and the draw
  \<open>1/2\<close> the scaled draw is 1, lane 0 already has prefix sum \<open>1 \<ge> 1\<close>, and the code picks
  lane 1.
\<close>

theorem roulette_first_reaching_counterexample:
  "roulette_threshold hit_scores (1 / 2) \<le> warp_scan hit_scores ! 0
   \<and> roulette_best_idx hit_scores (1 / 2) = 1"
  by (simp add: hit_scores_threshold hit_scores_scan hit_scores_best_idx)

text \<open>
  C9.  For the update of one edge, \<open>val = (1 - decay) * old + decay * deposit\<close> written to
  the cells \<open>(u, v)\<close> and \<open>(v, u)\<close>: with decay 0 the cell \<open>(u, v)\<close> keeps its value, and
  the whole matrix is unchanged when the two cells of the edge agreed before (the matrix
  is symmetric there); with decay 1 both cells hold exactly the deposit.  This holds for
  every edge and every previous content of the matrix.
\<close>

theorem decay_zero_identity_decay_one_deposit:
  "global_update_edge dimension 0 deposit best_route i matrix
      (best_route ! i * dimension + best_route ! ((i + 1) mod dimension))
     = matrix (best_route ! i * dimension + best_route ! ((i + 1) mod dimension))
   \<and> (matrix (best_route ! ((i + 1) mod dimension) * dimension + best_route ! i)
        = matrix (best_route ! i * dimension + best_route ! ((i + 1) mod dimension)) \<longrightarrow>
      global_update_edge dimension 0 deposit best_route i matrix = matrix)
   \<and> global_update_edge dimension 1 deposit best_route i matrix
      (best_route ! i * dimension + best_route ! ((i + 1) mod dimension)) = deposit
   \<and> global_update_edge dimension 1 deposit best_route i matrix
      (best_route ! ((i + 1) mod dimension) * dimension + best_route ! i) = deposit"
  by (auto simp: global_update_edge_def Let_def fun_eq_iff)

theorem decay_zero_identity_decay_one_deposit_witness:
  "global_update_edge 3 0 5 demo_route 0 (\<lambda>c. real (c mod 2)) = (\<lambda>c. real (c mod 2))
   \<and> global_update_edge 3 1 5 demo_route 0 (\<lambda>c. real (c mod 2)) 6 = 5
   \<and> global_update_edge 3 1 5 demo_route 0 (\<lambda>c. real (c mod 2)) 2 = 5"
proof -
  have sym: "(\<lambda>c. real (c mod 2)) (demo_route ! ((0 + 1) mod 3) * 3 + demo_route ! 0)
           = (\<lambda>c. real (c mod 2)) (demo_route ! 0 * 3 + demo_route ! ((0 + 1) mod 3))"
    by (simp add: demo_route_def)
  from decay_zero_identity_decay_one_deposit [of 3 5 demo_route 0 "\<lambda>c. real (c mod 2)"] sym
  have "global_update_edge 3 0 5 demo_route 0 (\<lambda>c. real (c mod 2)) = (\<lambda>c. real (c mod 2))"
    and "global_update_edge 3 1 5 demo_route 0 (\<lambda>c. real (c mod 2))
           (demo_route ! 0 * 3 + demo_route ! ((0 + 1) mod 3)) = 5"
    and "global_update_edge 3 1 5 demo_route 0 (\<lambda>c. real (c mod 2))
           (demo_route ! ((0 + 1) mod 3) * 3 + demo_route ! 0) = 5"
    by blast+
  moreover have "demo_route ! 0 * 3 + demo_route ! ((0 + 1) mod 3) = 6"
    and "demo_route ! ((0 + 1) mod 3) * 3 + demo_route ! 0 = 2"
    by (simp_all add: demo_route_def)
  ultimately show ?thesis by simp
qed

section \<open>The visited bitmask\<close>






lemma length_set_node_visited [simp]:
  "length (set_node_visited visited node) = length visited"
  by (simp add: set_node_visited_def)



section \<open>The arg-max reduction\<close>

lemma arg_max_foldl:
  fixes acc :: "nat \<times> real"
  defines "step \<equiv> (\<lambda>(best_id, best) (lane_id, val). if best < val then (lane_id, val) else (best_id, best))"
  shows "(foldl step acc rest = acc \<or> foldl step acc rest \<in> set rest)
       \<and> snd acc \<le> snd (foldl step acc rest)
       \<and> (\<forall>l \<in> set rest. snd l \<le> snd (foldl step acc rest))"
proof (induction rest arbitrary: acc)
  case Nil
  then show ?case by simp
next
  case (Cons l rest)
  let ?a = "step acc l"
  have a: "(?a = acc \<or> ?a = l) \<and> snd acc \<le> snd ?a \<and> snd l \<le> snd ?a"
    by (cases acc; cases l) (auto simp: step_def)
  from Cons [of ?a] a show ?case by fastforce
qed

lemma warp_reduce_arg_max_ext_max:
  assumes "lanes \<noteq> []"
  shows "warp_reduce_arg_max_ext lanes \<in> set lanes
       \<and> (\<forall>l \<in> set lanes. snd l \<le> snd (warp_reduce_arg_max_ext lanes))"
proof -
  from assms obtain first rest where l: "lanes = first # rest" by (cases lanes) auto
  from arg_max_foldl [of first rest] show ?thesis
    unfolding l warp_reduce_arg_max_ext_def by auto
qed

section \<open>The two-level reduction of a block\<close>






section \<open>The scan of one thread\<close>





lemma any_lane_iff: "any_lane preds \<longleftrightarrow> (\<exists>p \<in> set preds. p)"
  by (simp add: any_lane_def list_ex_iff)


section \<open>Monolithic construction keeps the route a partial permutation\<close>








lemma acs_calc_solution_loop_Suc:
  "0 < n \<Longrightarrow> acs_calc_solution_loop args ops (Suc n) s =
     acs_calc_solution_step args ops n (acs_calc_solution_loop args ops n s)"
  by (simp add: acs_calc_solution_loop_def)





section \<open>Per-step construction\<close>









section \<open>Selective-memory construction\<close>

lemma find_upt_Some:
  "find P [0..<n] = Some k \<Longrightarrow> P k \<and> k < n"
  by (auto simp: find_Some_iff)

lemma ffs_ballot_first:
  assumes len: "length preds = WARP_SIZE" and any: "any_lane preds"
  shows "ffs (ballot preds) - Suc 0 < WARP_SIZE \<and> preds ! (ffs (ballot preds) - Suc 0)"
proof -
  have l32: "length preds = 32" using len by (simp add: WARP_SIZE_def)
  from any obtain i where i: "i < length preds" "preds ! i"
    by (auto simp: any_lane_iff in_set_conv_nth)
  then have "bit (ballot preds) i" using l32 by (simp add: bit_ballot)
  moreover have "i \<in> set [0..<32]" using i(1) l32 by simp
  ultimately have "find (bit (ballot preds)) [0..<32] \<noteq> None"
    unfolding find_None_iff by blast
  then obtain k where k: "find (bit (ballot preds)) [0..<32] = Some k" by blast
  from find_upt_Some [OF this] have "bit (ballot preds) k" and "k < 32" by blast+
  then have "k < 32" "preds ! k" using l32 by (simp_all add: bit_ballot)
  moreover have "ffs (ballot preds) - Suc 0 = k" by (simp add: ffs_def k)
  ultimately show ?thesis by (simp add: WARP_SIZE_def)
qed

lemma spm_exploit_ok:
  assumes nn: "\<forall>tid < WARP_SIZE. arg_nn_lists args (cur * arg_NN_SIZE args + tid) < arg_dimension args"
    and heur: "\<forall>v < arg_dimension args. v \<noteq> cur \<longrightarrow>
                 0 < arg_heuristic_matrix args (arg_dimension args * cur + v)"
    and tau: "0 < initial_pheromone"
    and cur: "is_node_visited was_visited cur"
    and nn_id: "nn_id = map (\<lambda>tid. arg_nn_lists args (cur * arg_NN_SIZE args + tid)) [0..<WARP_SIZE]"
    and unv: "is_nn_unvisited = map (\<lambda>n. \<not> is_node_visited was_visited n) nn_id"
    and any: "any_lane is_nn_unvisited"
  shows "0 < fst (spm_exploit args sops was_visited memory cur initial_pheromone nn_id is_nn_unvisited)
       \<and> snd (snd (spm_exploit args sops was_visited memory cur initial_pheromone nn_id
                      is_nn_unvisited)) < arg_dimension args
       \<and> \<not> is_node_visited was_visited
             (snd (snd (spm_exploit args sops was_visited memory cur initial_pheromone nn_id
                          is_nn_unvisited)))"
proof -
  let ?N = "arg_dimension args"
  let ?vis = "is_node_visited was_visited"
  let ?h = "\<lambda>i. arg_heuristic_matrix args (?N * cur + i)"
  define lane where "lane = (\<lambda>tid.
                    if tid < spm_capacity sops
                    then
                      let my_node = spm_get_indices sops memory cur tid
                      in (my_node,
                          if my_node < ?N \<and> \<not> ?vis my_node
                          then spm_get_pheromone sops memory cur tid * ?h my_node
                          else 0)
                    else (arg_uninit args tid, 0))"
  define best where "best = warp_reduce_arg_max_ext (map lane [0..<WARP_SIZE])"
  define closest where "closest = nn_id ! (ffs (ballot is_nn_unvisited) - Suc 0)"
  define nn_product where "nn_product = initial_pheromone * ?h closest"
  have ex: "spm_exploit args sops was_visited memory cur initial_pheromone nn_id is_nn_unvisited
          = (nn_product, snd best, if nn_product > snd best then closest else fst best)"
    by (simp add: spm_exploit_def Let_def lane_def [symmetric] best_def [symmetric] split_beta
        warp_bcast_def closest_def [symmetric] nn_product_def [symmetric])
  have len: "length is_nn_unvisited = WARP_SIZE" "length nn_id = WARP_SIZE"
    by (simp_all add: unv nn_id)
  from ffs_ballot_first [OF len(1) any]
  have idx: "ffs (ballot is_nn_unvisited) - Suc 0 < WARP_SIZE"
    and un: "is_nn_unvisited ! (ffs (ballot is_nn_unvisited) - Suc 0)" by blast+
  have cl: "closest < ?N" "\<not> ?vis closest"
  proof -
    have "closest = arg_nn_lists args (cur * arg_NN_SIZE args + (ffs (ballot is_nn_unvisited) - Suc 0))"
      using idx by (simp add: closest_def nn_id)
    with nn idx show "closest < ?N" by simp
    from un idx len show "\<not> ?vis closest" by (simp add: closest_def unv)
  qed
  with cur have "closest \<noteq> cur" by auto
  with heur cl(1) have "0 < ?h closest" by blast
  with tau have np: "0 < nn_product" by (simp add: nn_product_def)
  have t: "fst best < ?N \<and> \<not> ?vis (fst best)" if "\<not> nn_product > snd best"
  proof -
    from that np have pos: "0 < snd best" by simp
    have ne: "map lane [0..<WARP_SIZE] \<noteq> []" by (simp add: WARP_SIZE_def)
    from warp_reduce_arg_max_ext_max [OF ne] obtain tid where "best = lane tid"
      unfolding best_def by auto
    with pos show ?thesis
      by (auto simp: lane_def Let_def split: if_splits)
  qed
  show ?thesis unfolding ex using np cl t by simp
qed






lemma acs_spm_calc_solution_loop_Suc:
  "0 < n \<Longrightarrow> acs_spm_calc_solution_loop args sops tau (Suc n) s =
     (case acs_spm_calc_solution_loop args sops tau n s of None \<Rightarrow> None
      | Some s' \<Rightarrow> acs_spm_calc_solution_step args sops tau n s')"
  by (simp add: acs_spm_calc_solution_loop_def)



section \<open>Completed routes\<close>







section \<open>The exploitation branch of the selective-memory kernel\<close>

lemma demo_visited_cur: "is_node_visited demo_visited 1"
  by code_simp

lemma demo_any_unvisited:
  "any_lane (map (\<lambda>n. \<not> is_node_visited demo_visited n)
               (map (\<lambda>tid. arg_nn_lists (demo_args 1) (1 * arg_NN_SIZE (demo_args 1) + tid))
                  [0..<WARP_SIZE]))"
  by code_simp

lemma demo_exploit:
  "spm_exploit (demo_args 1) (log_spm_ops 3) demo_visited [] 1 1
     (map (\<lambda>tid. arg_nn_lists (demo_args 1) (1 * arg_NN_SIZE (demo_args 1) + tid)) [0..<WARP_SIZE])
     (map (\<lambda>n. \<not> is_node_visited demo_visited n)
        (map (\<lambda>tid. arg_nn_lists (demo_args 1) (1 * arg_NN_SIZE (demo_args 1) + tid))
           [0..<WARP_SIZE]))
   = (1, 0, 0)"
  by code_simp

text \<open>
  C8.  In \<open>acs_spm_calc_solution\<close>, let the ant stand on the visited node \<open>cur\<close>, let its
  neighbour list name nodes, let the heuristic values from \<open>cur\<close> to every other node and the
  default pheromone be positive, and let some nearest neighbour be unvisited.  Then the score
  \<open>nn_product\<close> of the best default-pheromone neighbour is positive, so the assertion
  \<open>nn_product > 0 || max_product > 0\<close> holds; the node \<open>t\<close> written to \<open>next_pos\<close> is a node of
  the instance and is unvisited, so the assertion \<open>!WAS_VISITED(next_pos[0])\<close> holds; and when
  the draw is below \<open>q0\<close> the selection returns \<open>t\<close> without failing.
\<close>

theorem spm_exploitation_assertions_hold:
  assumes "\<forall>tid < WARP_SIZE. arg_nn_lists args (cur * arg_NN_SIZE args + tid) < arg_dimension args"
    and "\<forall>v < arg_dimension args. v \<noteq> cur \<longrightarrow>
           0 < arg_heuristic_matrix args (arg_dimension args * cur + v)"
    and "0 < initial_pheromone"
    and "is_node_visited was_visited cur"
    and "nn_id = map (\<lambda>tid. arg_nn_lists args (cur * arg_NN_SIZE args + tid)) [0..<WARP_SIZE]"
    and "is_nn_unvisited = map (\<lambda>n. \<not> is_node_visited was_visited n) nn_id"
    and "any_lane is_nn_unvisited"
    and "spm_exploit args sops was_visited memory cur initial_pheromone nn_id is_nn_unvisited
           = (nn_product, max_product, t)"
  shows "(nn_product > 0 \<or> max_product > 0)
       \<and> t < arg_dimension args
       \<and> \<not> is_node_visited was_visited t
       \<and> (arg_rand_uniform args rng < arg_q0 args \<longrightarrow>
            spm_select_from_nn args sops was_visited memory cur initial_pheromone rng
              = Some (t, rng + 1))"
proof -
  from spm_exploit_ok [OF assms(1-7), of sops memory] assms(8)
  have e: "0 < nn_product" "t < arg_dimension args" "\<not> is_node_visited was_visited t"
    by simp_all
  have "spm_select_from_nn args sops was_visited memory cur initial_pheromone rng
          = Some (t, rng + 1)" if "arg_rand_uniform args rng < arg_q0 args"
    using that assms(7) e(1,3)
    by (simp add: spm_select_from_nn_def Let_def assms(5) [symmetric] assms(6) [symmetric] assms(8))
  with e show ?thesis by blast
qed

theorem spm_exploitation_assertions_hold_witness:
  "spm_select_from_nn (demo_args 1) (log_spm_ops 3) demo_visited [] 1 1 1 = Some (0, 2)
   \<and> \<not> is_node_visited demo_visited 0"
proof -
  have nn: "\<forall>tid < WARP_SIZE.
      arg_nn_lists (demo_args 1) (1 * arg_NN_SIZE (demo_args 1) + tid) < arg_dimension (demo_args 1)"
    by (simp add: demo_args_def)
  have heur: "\<forall>v < arg_dimension (demo_args 1). v \<noteq> 1 \<longrightarrow>
      0 < arg_heuristic_matrix (demo_args 1) (arg_dimension (demo_args 1) * 1 + v)"
    by (simp add: demo_args_def)
  have tau: "(0::real) < 1" by simp
  have q: "arg_rand_uniform (demo_args 1) 1 < arg_q0 (demo_args 1)" by (simp add: demo_args_def)
  from spm_exploitation_assertions_hold
         [OF nn heur tau demo_visited_cur refl refl demo_any_unvisited demo_exploit, of 1] q
  show ?thesis by simp
qed

section \<open>Local pheromone deposits\<close>

lemma local_deposits_Suc:
  "0 < n \<Longrightarrow> local_deposits update freq decay deposit route (Suc n) phmem =
     (let m = local_deposits update freq decay deposit route n phmem
      in if n mod freq = 0 then update m (route ! n) (route ! (n - 1)) decay deposit else m)"
  by (simp add: local_deposits_def Let_def)

lemma local_deposits_cong:
  assumes "\<forall>t < n. route' ! t = route ! t"
  shows "local_deposits update freq decay deposit route' n phmem =
         local_deposits update freq decay deposit route n phmem"
  unfolding local_deposits_def
proof (rule foldl_cong [OF refl refl])
  fix m t assume "t \<in> set [1..<n]"
  then have "t < n" "t - 1 < n" by auto
  with assms have "route' ! t = route ! t" "route' ! (t - 1) = route ! (t - 1)" by blast+
  then show "(if t mod freq = 0 then update m (route' ! t) (route' ! (t - 1)) decay deposit else m)
           = (if t mod freq = 0 then update m (route ! t) (route ! (t - 1)) decay deposit else m)"
    by simp
qed

lemma acs_calc_solution_step_shape:
  "ant_route (acs_calc_solution_step args ops iter s) =
     (ant_route s) [iter := ant_curr_pos (acs_calc_solution_step args ops iter s)]"
  "ant_phmem (acs_calc_solution_step args ops iter s) =
     (if iter mod arg_update_freq args = 0
      then phmem_update ops (ant_phmem s) (ant_curr_pos (acs_calc_solution_step args ops iter s))
             (ant_route (acs_calc_solution_step args ops iter s) ! (iter - 1))
             (arg_phi args) (arg_initial_pheromone args)
      else ant_phmem s)"
  by (simp_all add: acs_calc_solution_step_def Let_def split_beta)

lemma acs_calc_solution_loop_deposits:
  assumes len: "length (ant_route s) = arg_dimension args"
  shows "n \<le> arg_dimension args \<Longrightarrow>
         length (ant_route (acs_calc_solution_loop args ops n s)) = arg_dimension args
       \<and> ant_phmem (acs_calc_solution_loop args ops n s) =
           local_deposits (phmem_update ops) (arg_update_freq args) (arg_phi args)
             (arg_initial_pheromone args) (ant_route (acs_calc_solution_loop args ops n s)) n
             (ant_phmem s)"
proof (induction n)
  case 0
  then show ?case using len by (simp add: acs_calc_solution_loop_def local_deposits_def)
next
  case (Suc n)
  show ?case
  proof (cases "n = 0")
    case True
    then show ?thesis using len by (simp add: acs_calc_solution_loop_def local_deposits_def)
  next
    case False
    then have n: "0 < n" by simp
    let ?s = "acs_calc_solution_loop args ops n s"
    let ?s' = "acs_calc_solution_step args ops n ?s"
    let ?nxt = "ant_curr_pos ?s'"
    from Suc have ih: "length (ant_route ?s) = arg_dimension args"
      "ant_phmem ?s = local_deposits (phmem_update ops) (arg_update_freq args) (arg_phi args)
             (arg_initial_pheromone args) (ant_route ?s) n (ant_phmem s)"
      by simp_all
    have r: "ant_route ?s' = (ant_route ?s) [n := ?nxt]" by (rule acs_calc_solution_step_shape)
    have rn: "ant_route ?s' ! n = ?nxt" using ih(1) Suc.prems by (simp add: r)
    have same: "\<forall>t < n. ant_route ?s' ! t = ant_route ?s ! t" by (simp add: r)
    have "local_deposits (phmem_update ops) (arg_update_freq args) (arg_phi args)
             (arg_initial_pheromone args) (ant_route ?s') n (ant_phmem s) = ant_phmem ?s"
      unfolding ih(2) using same by (rule local_deposits_cong)
    then have "ant_phmem ?s' = local_deposits (phmem_update ops) (arg_update_freq args) (arg_phi args)
             (arg_initial_pheromone args) (ant_route ?s') (Suc n) (ant_phmem s)"
      by (simp add: local_deposits_Suc [OF n] Let_def acs_calc_solution_step_shape(2) rn)
    moreover have "length (ant_route ?s') = arg_dimension args" using ih(1) by (simp add: r)
    ultimately show ?thesis by (simp add: acs_calc_solution_loop_Suc [OF n])
  qed
qed

lemma monolithic_local_deposits:
  assumes "length route = arg_dimension args"
  shows "ant_phmem (fst (acs_calc_solution args ops route phmem rng)) =
         closing_edge_update args ops (ant_route (fst (acs_calc_solution args ops route phmem rng)))
           (local_deposits (phmem_update ops) (arg_update_freq args) (arg_phi args)
              (arg_initial_pheromone args)
              (ant_route (fst (acs_calc_solution args ops route phmem rng)))
              (arg_dimension args) phmem)"
proof -
  have "length (ant_route (acs_calc_solution_init args route phmem rng)) = arg_dimension args"
    "ant_phmem (acs_calc_solution_init args route phmem rng) = phmem"
    using assms by (simp_all add: acs_calc_solution_init_def Let_def)
  from acs_calc_solution_loop_deposits [OF this(1) order_refl, of ops] this(2)
  show ?thesis by (simp add: acs_calc_solution_def Let_def)
qed

lemma acs_spm_calc_solution_step_shape:
  assumes "acs_spm_calc_solution_step args sops tau iter s = Some s'"
  shows "ant_route s' = (ant_route s) [iter := ant_curr_pos s']"
    and "ant_phmem s' =
     (if iter mod arg_update_freq args = 0
      then spm_unsafe_warp_update sops (ant_phmem s) (ant_curr_pos s') (ant_route s' ! (iter - 1))
             (arg_phi args) tau
      else ant_phmem s)"
  using assms
  by (auto simp: acs_spm_calc_solution_step_def Let_def split_beta split: option.splits)

lemma acs_spm_calc_solution_loop_deposits:
  assumes len: "length (ant_route s) = arg_dimension args"
  shows "n \<le> arg_dimension args \<Longrightarrow>
         acs_spm_calc_solution_loop args sops tau n s = Some s' \<Longrightarrow>
         length (ant_route s') = arg_dimension args
       \<and> ant_phmem s' =
           local_deposits (spm_unsafe_warp_update sops) (arg_update_freq args) (arg_phi args)
             tau (ant_route s') n (ant_phmem s)"
proof (induction n arbitrary: s')
  case 0
  then show ?case using len by (simp add: acs_spm_calc_solution_loop_def local_deposits_def)
next
  case (Suc n)
  show ?case
  proof (cases "n = 0")
    case True
    then show ?thesis using len Suc.prems
      by (simp add: acs_spm_calc_solution_loop_def local_deposits_def)
  next
    case False
    then have n: "0 < n" by simp
    from Suc.prems(2) obtain s1 where s1: "acs_spm_calc_solution_loop args sops tau n s = Some s1"
      and st: "acs_spm_calc_solution_step args sops tau n s1 = Some s'"
      by (auto simp: acs_spm_calc_solution_loop_Suc [OF n] split: option.splits)
    from Suc.IH [OF _ s1] Suc.prems(1) have ih: "length (ant_route s1) = arg_dimension args"
      "ant_phmem s1 = local_deposits (spm_unsafe_warp_update sops) (arg_update_freq args)
             (arg_phi args) tau (ant_route s1) n (ant_phmem s)"
      by simp_all
    let ?nxt = "ant_curr_pos s'"
    have r: "ant_route s' = (ant_route s1) [n := ?nxt]"
      using st by (rule acs_spm_calc_solution_step_shape)
    have rn: "ant_route s' ! n = ?nxt" using ih(1) Suc.prems(1) by (simp add: r)
    have same: "\<forall>t < n. ant_route s' ! t = ant_route s1 ! t" by (simp add: r)
    have "local_deposits (spm_unsafe_warp_update sops) (arg_update_freq args) (arg_phi args)
             tau (ant_route s') n (ant_phmem s) = ant_phmem s1"
      unfolding ih(2) using same by (rule local_deposits_cong)
    then have "ant_phmem s' = local_deposits (spm_unsafe_warp_update sops) (arg_update_freq args)
             (arg_phi args) tau (ant_route s') (Suc n) (ant_phmem s)"
      by (simp add: local_deposits_Suc [OF n] Let_def acs_spm_calc_solution_step_shape(2) [OF st] rn)
    moreover have "length (ant_route s') = arg_dimension args" using ih(1) by (simp add: r)
    ultimately show ?thesis by simp
  qed
qed

lemma selective_local_deposits:
  assumes "length route = arg_dimension args"
    and "acs_spm_calc_solution args sops route memory rng = Some (s, len)"
  shows "ant_phmem s =
         local_deposits (spm_unsafe_warp_update sops) (arg_update_freq args) (arg_phi args)
           (spm_default_pheromone sops memory) (ant_route s) (arg_dimension args) memory"
proof -
  have i: "length (ant_route (acs_calc_solution_init args route memory rng)) = arg_dimension args"
    "ant_phmem (acs_calc_solution_init args route memory rng) = memory"
    using assms(1) by (simp_all add: acs_calc_solution_init_def Let_def)
  from assms(2) have "acs_spm_calc_solution_loop args sops (spm_default_pheromone sops memory)
      (arg_dimension args) (acs_calc_solution_init args route memory rng) = Some s"
    by (auto simp: acs_spm_calc_solution_def Let_def split: option.splits)
  from acs_spm_calc_solution_loop_deposits [OF i(1) order_refl this] i(2)
  show ?thesis by simp
qed

text \<open>
  In the monolithic and in the selective-memory kernel, run by a block of one warp, the
  deposits made during the construction follow the update frequency: the memory at the end is the initial one after
  the update of the edge \<open>(route[t], route[t - 1])\<close>, with decay \<open>phi\<close> and the initial
  (default) pheromone as deposit, for exactly the steps \<open>t\<close> of \<open>1 .. dimension - 1\<close> with
  \<open>t mod pher_mem_update_freq = 0\<close>, in the order of the steps (followed, in the monolithic
  kernel, by what the block does on the closing edge).
\<close>

theorem monolithic_selective_deposit_every_mth_step:
  assumes "length route = arg_dimension args" and "0 < arg_update_freq args"
    and "arg_blockDim args = WARP_SIZE"
  shows "ant_phmem (fst (acs_calc_solution args ops route phmem rng)) =
           closing_edge_update args ops (ant_route (fst (acs_calc_solution args ops route phmem rng)))
             (foldl (\<lambda>m t. if t mod arg_update_freq args = 0
                            then phmem_update ops m
                                   (ant_route (fst (acs_calc_solution args ops route phmem rng)) ! t)
                                   (ant_route (fst (acs_calc_solution args ops route phmem rng)) ! (t - 1))
                                   (arg_phi args) (arg_initial_pheromone args)
                            else m)
                phmem [1..<arg_dimension args])
       \<and> (\<forall>s len. acs_spm_calc_solution args sops route memory rng = Some (s, len) \<longrightarrow>
            ant_phmem s =
              foldl (\<lambda>m t. if t mod arg_update_freq args = 0
                             then spm_unsafe_warp_update sops m (ant_route s ! t) (ant_route s ! (t - 1))
                                    (arg_phi args) (spm_default_pheromone sops memory)
                             else m)
                memory [1..<arg_dimension args])"
  using monolithic_local_deposits [OF assms(1), of ops phmem rng]
    selective_local_deposits [OF assms(1), of sops memory rng]
  unfolding local_deposits_def by blast

lemma demo_log_route:
  "ant_route (fst (acs_calc_solution (demo_args 2) log_ops [1, 0, 0] [] 1)) = [1, 0, 2]"
  by code_simp

lemma demo_log_due:
  "closing_edge_update (demo_args 2) log_ops [1, 0, 2]
     (foldl (\<lambda>m t. if t mod arg_update_freq (demo_args 2) = 0
                    then phmem_update log_ops m ([1, 0, 2] ! t) ([1, 0, 2] ! (t - 1))
                           (arg_phi (demo_args 2)) (arg_initial_pheromone (demo_args 2))
                    else m)
        [] [1..<arg_dimension (demo_args 2)])
   = [(2, 0, 1 / 10, 1 / 100)]"
  by code_simp

lemma demo_spm_run:
  "\<exists>s len. acs_spm_calc_solution (demo_args 2) (log_spm_ops 3) [1, 0, 0] [] 1 = Some (s, len)
           \<and> ant_route s = [1, 0, 2]"
proof -
  have "map_option (\<lambda>(s, len). ant_route s)
          (acs_spm_calc_solution (demo_args 2) (log_spm_ops 3) [1, 0, 0] [] 1) = Some [1, 0, 2]"
    by code_simp
  then show ?thesis by auto
qed

lemma demo_spm_due:
  "foldl (\<lambda>m t. if t mod arg_update_freq (demo_args 2) = 0
                 then spm_unsafe_warp_update (log_spm_ops 3) m ([1, 0, 2] ! t) ([1, 0, 2] ! (t - 1))
                        (arg_phi (demo_args 2)) (spm_default_pheromone (log_spm_ops 3) [])
                 else m)
     [] [1..<arg_dimension (demo_args 2)]
   = [(2, 0, 1 / 10, 1)]"
  by code_simp

theorem monolithic_selective_deposit_every_mth_step_witness:
  "ant_phmem (fst (acs_calc_solution (demo_args 2) log_ops [1, 0, 0] [] 1))
     = [(2, 0, 1 / 10, 1 / 100)]
   \<and> (\<exists>s len. acs_spm_calc_solution (demo_args 2) (log_spm_ops 3) [1, 0, 0] [] 1 = Some (s, len)
          \<and> ant_phmem s = [(2, 0, 1 / 10, 1)])"
proof -
  have h: "length [1, 0, 0 :: nat] = arg_dimension (demo_args 2)" "0 < arg_update_freq (demo_args 2)"
    "arg_blockDim (demo_args 2) = WARP_SIZE"
    by (simp_all add: demo_args_def WARP_SIZE_def)
  note inst = monolithic_selective_deposit_every_mth_step [OF h, of log_ops "[]" 1 "log_spm_ops 3" "[]"]
  from inst [THEN conjunct1]
  have 1: "ant_phmem (fst (acs_calc_solution (demo_args 2) log_ops [1, 0, 0] [] 1))
     = [(2, 0, 1 / 10, 1 / 100)]"
    unfolding demo_log_route demo_log_due .
  from demo_spm_run obtain s len
    where s: "acs_spm_calc_solution (demo_args 2) (log_spm_ops 3) [1, 0, 0] [] 1 = Some (s, len)"
      "ant_route s = [1, 0, 2]" by blast
  from inst [THEN conjunct2, rule_format, OF s(1)]
  have "ant_phmem s = [(2, 0, 1 / 10, 1)]"
    unfolding s(2) demo_spm_due .
  with 1 s(1) show ?thesis by blast
qed

text \<open>
  C2.  The per-step kernel \<open>acs_select_next_node\<close> receives \<open>pher_mem_update_freq\<close> and never
  reads it.  On the three-node instance with update frequency 2, started on node 1: after
  the first launch (step 1, and \<open>1 mod 2 \<noteq> 0\<close>) the memory has already received the update
  of the edge \<open>(1, 0)\<close>; after both launches it has received three updates, one per step and
  one on the closing edge, where the monolithic kernel on the same input makes the single
  update of step 2.
\<close>

theorem per_step_deposit_ignores_frequency:
  "map_option st_phmem
     (acs_select_next_node (demo_args 2) log_ops
        \<lparr>st_route = [1, 0, 0], st_visited_count = 1, st_was_visited = replicate 3 0,
         st_phmem = [], st_rng = 1\<rparr>)
     = Some [(1, 0, 1 / 10, 1 / 100)]
   \<and> map_option (\<lambda>(s, len). st_phmem s)
       (separate_build_ant_solutions (demo_args 2) log_ops [1, 0, 0] [] 1)
     = Some [(1, 0, 1 / 10, 1 / 100), (0, 2, 1 / 10, 1 / 100), (2, 1, 1 / 10, 1 / 100)]
   \<and> ant_phmem (fst (acs_calc_solution (demo_args 2) log_ops [1, 0, 0] [] 1))
     = [(2, 0, 1 / 10, 1 / 100)]"
  by code_simp

text \<open>
  C3.  On the three-node instance with update frequency 1 and a block of 32 threads, started
  on node 1, the ant builds the route \<open>[1, 0, 2]\<close> and the deposit on the closing edge
  \<open>(2, 1)\<close> is due (\<open>3 mod 1 = 0\<close>).  In the monolithic kernel the update of the closing edge
  is outside the \<open>tid == 0\<close> branch: each of the 32 threads of the block invokes it.  The
  selective-memory kernel makes the deposits of steps 1 and 2 and none on the closing edge.
\<close>

theorem closing_edge_deposit_not_once:
  "ant_phmem (fst (acs_calc_solution (demo_args 1) log_ops [1, 0, 0] [] 1))
     = [(0, 1, 1 / 10, 1 / 100), (2, 0, 1 / 10, 1 / 100)] @ replicate 32 (2, 1, 1 / 10, 1 / 100)
   \<and> map_option (\<lambda>(s, len). (ant_route s, ant_phmem s))
       (acs_spm_calc_solution (demo_args 1) (log_spm_ops 3) [1, 0, 0] [] 1)
     = Some ([1, 0, 2], [(0, 1, 1 / 10, 1), (2, 0, 1 / 10, 1)])"
  by code_simp

end
